theory Spec2Isabelle
  imports Main "HOL-Library.Sublist"
begin

section \<open>Translator.py: lexer, parser, evaluator and TOML writer\<close>

text \<open>
  The program reads a text, splits it into tokens with an ordered table of regular
  expressions, parses the tokens by recursive descent into \<open>set\<close> statements, evaluates
  the statements in order into a dictionary of constants and writes the dictionary as
  \<open>key = value\<close> lines.  Any exception raised on the way is caught by \<open>main\<close> and replaced
  by one \<open>ERROR = "..."\<close> line.

  Modelling scope.  A text is a list of characters with code points below 256, one \<open>char\<close>
  per position.  Python integers are \<open>int\<close>.  The program computes with integers and
  lists, and Python's \<open>**\<close> leaves the integers at a negative exponent: the values are
  then \<open>float\<close> (and \<open>complex\<close>) numbers, and the run goes on with them.  Which
  \<open>float\<close> an operation returns and how \<open>repr\<close> prints it belongs to the interpreter's
  floating-point arithmetic; it is a parameter \<open>fl\<close> of the evaluator and of the writer,
  and every theorem holds for every value of it.  Resource limits of the interpreter (the
  recursion limit, the limit on the number of digits of an integer conversion, memory)
  are not modelled.
\<close>

subsection \<open>Tokens and the pattern table\<close>

text \<open>
  The first components of \<open>TOKEN_REGEX\<close>.  \<open>COMMENT\<close> and \<open>WS\<close> are kinds of the table
  like the others; it is \<open>lex\<close> that leaves them out of its result.
\<close>

datatype kind =
    COMMENT | NUMBER | SET | LIST | POW | ABS | IDENT | CARET | LBRACE | RBRACE
  | LPAREN | RPAREN | PLUS | MINUS | COMMA | EQUAL | SEMICOLON | WS

text \<open>\<open>class Token\<close>: the fields \<open>type\<close> and \<open>value\<close>.\<close>

datatype token = Token (ttype: kind) (tvalue: string)

text \<open>
  The regular expressions of the table use character classes, each taken once or
  repeated greedily (\<open>*\<close>, \<open>+\<close>), in sequence.  \<open>Dot\<close> is \<open>.\<close>, which matches every
  character but the line break; \<open>Digit\<close> is \<open>\d\<close>, which below code point 256 is \<open>0\<close> to
  \<open>9\<close>.
\<close>

datatype cls = Lit char | Range char char | OneOf string | Dot | Digit

fun cls_match :: "cls \<Rightarrow> char \<Rightarrow> bool" where
  "cls_match (Lit a) c = (c = a)"
| "cls_match (Range lo hi) c = ((of_char lo :: nat) \<le> of_char c \<and> (of_char c :: nat) \<le> of_char hi)"
| "cls_match (OneOf s) c = (c \<in> set s)"
| "cls_match Dot c = (c \<noteq> CHR 0x0A)"
| "cls_match Digit c = ((48 :: nat) \<le> of_char c \<and> (of_char c :: nat) \<le> 57)"

datatype item = Once cls | Star cls | Plus cls

text \<open>
  \<open>backtrack m s k\<close>: a greedy repetition has taken \<open>k\<close> characters of \<open>s\<close>; the rest of
  the pattern (\<open>m\<close>) is tried after them, then after one character fewer, down to \<open>lo\<close>
  characters, as the backtracking matcher of \<open>re\<close> does.
\<close>

fun backtrack :: "(string \<Rightarrow> nat option) \<Rightarrow> string \<Rightarrow> nat \<Rightarrow> nat \<Rightarrow> nat option" where
  "backtrack m s lo 0 = (if lo = 0 then m s else None)"
| "backtrack m s lo (Suc k) =
     (if Suc k < lo then None
      else (case m (drop (Suc k) s) of
              Some n \<Rightarrow> Some (Suc k + n)
            | None \<Rightarrow> backtrack m s lo k))"

text \<open>
  \<open>match_items p s\<close> is \<open>regex.match\<close> of the pattern \<open>p\<close> at the start of \<open>s\<close>: the length of
  the matched text, or \<open>None\<close>.  (None of the patterns looks behind its starting position,
  so that matching \<open>text\<close> at \<open>pos\<close> is matching the text from \<open>pos\<close> on.)
\<close>

fun match_items :: "item list \<Rightarrow> string \<Rightarrow> nat option" where
  "match_items [] s = Some 0"
| "match_items (Once c # p) s =
     (case s of
        [] \<Rightarrow> None
      | x # xs \<Rightarrow> if cls_match c x then map_option Suc (match_items p xs) else None)"
| "match_items (Star c # p) s =
     backtrack (\<lambda>t. match_items p t) s 0 (length (takeWhile (cls_match c) s))"
| "match_items (Plus c # p) s =
     backtrack (\<lambda>t. match_items p t) s 1 (length (takeWhile (cls_match c) s))"

definition word :: "string \<Rightarrow> item list" where
  "word s = map (\<lambda>c. Once (Lit c)) s"

definition TOKEN_REGEX :: "(kind \<times> item list) list" where
  "TOKEN_REGEX =
    [(COMMENT, [Once (Lit CHR ''*''), Star Dot]),
     (NUMBER, [Plus Digit]),
     (SET, word ''set''),
     (LIST, word ''list''),
     (POW, word ''pow''),
     (ABS, word ''abs''),
     (IDENT, [Plus (Range CHR ''A'' CHR ''Z'')]),
     (CARET, [Once (Lit CHR ''^'')]),
     (LBRACE, [Once (Lit CHR ''{'')]),
     (RBRACE, [Once (Lit CHR ''}'')]),
     (LPAREN, [Once (Lit CHR ''('')]),
     (RPAREN, [Once (Lit CHR '')'')]),
     (PLUS, [Once (Lit CHR ''+'')]),
     (MINUS, [Once (Lit CHR ''-'')]),
     (COMMA, [Once (Lit CHR '','')]),
     (EQUAL, [Once (Lit CHR ''='')]),
     (SEMICOLON, [Once (Lit CHR '';'')]),
     (WS, [Plus (OneOf [CHR '' '', CHR 0x09, CHR 0x0A])])]"

subsection \<open>Errors\<close>

text \<open>
  A text without a line break: what \<open>repr\<close> gives for a \<open>float\<close> or \<open>complex\<close> number, and
  the message of an exception of the floating-point arithmetic.
\<close>

typedef line = "{s :: string. CHR 0x0A \<notin> set s}"
  morphisms line_text Line
  by (rule exI [of _ "[]"]) simp

setup_lifting type_definition_line

instantiation line :: equal
begin

lift_definition equal_line :: "line \<Rightarrow> line \<Rightarrow> bool" is "(=)" .

instance
  by standard (transfer, simp)

end

text \<open>
  The exceptions the program can raise.  The first four are raised by the program's own
  \<open>raise\<close> statements, the others by the interpreter: \<open>AttributeError\<close> reading \<open>.type\<close>
  of \<open>None\<close>; \<open>TypeError\<close> applying an arithmetic operator to a list; for an integer
  raised to a negative integer, \<open>OverflowError\<close> when one of the two is too large to be
  converted to \<open>float\<close> and \<open>ZeroDivisionError\<close> when the base is zero.
  \<open>ArithmeticError m\<close> is the \<open>OverflowError\<close> or \<open>ZeroDivisionError\<close> (the subclasses of
  Python's \<open>ArithmeticError\<close>) with the message \<open>m\<close> that an operation with a \<open>float\<close>
  or \<open>complex\<close> operand raises.
\<close>

datatype pytype = PyInt | PyFloat | PyComplex | PyList

datatype binop = OpAdd | OpSub | OpPow

datatype error =
    LexError char nat
  | SyntaxExpected kind "kind option"
  | SyntaxUnexpected kind
  | SemanticError string
  | AttributeError
  | TypeErrorBinary binop pytype pytype
  | TypeErrorConcat pytype
  | TypeErrorAbs
  | OverflowError
  | ZeroDivisionError
  | ArithmeticError line

text \<open>\<open>str\<close> of a natural number and of an integer: the decimal digits, after a minus sign
  for a negative integer.\<close>

fun str_nat :: "nat \<Rightarrow> string" where
  "str_nat n =
     (if n < 10 then [char_of (48 + n)]
      else str_nat (n div 10) @ [char_of (48 + n mod 10)])"

declare str_nat.simps [simp del]

definition str_int :: "int \<Rightarrow> string" where
  "str_int i = (if i < 0 then CHR ''-'' # str_nat (nat (- i)) else str_nat (nat i))"

fun kind_name :: "kind \<Rightarrow> string" where
  "kind_name COMMENT = ''COMMENT''"
| "kind_name NUMBER = ''NUMBER''"
| "kind_name SET = ''SET''"
| "kind_name LIST = ''LIST''"
| "kind_name POW = ''POW''"
| "kind_name ABS = ''ABS''"
| "kind_name IDENT = ''IDENT''"
| "kind_name CARET = ''CARET''"
| "kind_name LBRACE = ''LBRACE''"
| "kind_name RBRACE = ''RBRACE''"
| "kind_name LPAREN = ''LPAREN''"
| "kind_name RPAREN = ''RPAREN''"
| "kind_name PLUS = ''PLUS''"
| "kind_name MINUS = ''MINUS''"
| "kind_name COMMA = ''COMMA''"
| "kind_name EQUAL = ''EQUAL''"
| "kind_name SEMICOLON = ''SEMICOLON''"
| "kind_name WS = ''WS''"

fun pytype_name :: "pytype \<Rightarrow> string" where
  "pytype_name PyInt = ''int''"
| "pytype_name PyFloat = ''float''"
| "pytype_name PyComplex = ''complex''"
| "pytype_name PyList = ''list''"

fun binop_name :: "binop \<Rightarrow> string" where
  "binop_name OpAdd = ''+''"
| "binop_name OpSub = ''-''"
| "binop_name OpPow = ''** or pow()''"

definition quoted :: "string \<Rightarrow> string" where
  "quoted s = [CHR 0x27] @ s @ [CHR 0x27]"

text \<open>
  \<open>str(e)\<close> of each exception: the f-strings of the program's own \<open>raise\<close> statements,
  and the interpreter's messages for the others (CPython 3.11).
\<close>

fun str_error :: "error \<Rightarrow> string" where
  "str_error (LexError c pos) =
     ''LexError: Unexpected character '' @ quoted [c] @ '' at position '' @ str_nat pos"
| "str_error (SyntaxExpected expected tok) =
     ''SyntaxError: Expected '' @ kind_name expected @ '', got '' @
       (case tok of Some k \<Rightarrow> kind_name k | None \<Rightarrow> ''EOF'')"
| "str_error (SyntaxUnexpected k) = ''SyntaxError: Unexpected token '' @ kind_name k"
| "str_error (SemanticError name) = ''SemanticError: Unknown constant '' @ name"
| "str_error AttributeError =
     quoted ''NoneType'' @ '' object has no attribute '' @ quoted ''type''"
| "str_error (TypeErrorBinary op l r) =
     ''unsupported operand type(s) for '' @ binop_name op @ '': '' @
       quoted (pytype_name l) @ '' and '' @ quoted (pytype_name r)"
| "str_error (TypeErrorConcat r) =
     ''can only concatenate list (not '' @ [CHR 0x22] @ pytype_name r @ [CHR 0x22] @ '') to list''"
| "str_error TypeErrorAbs = ''bad operand type for abs(): '' @ quoted ''list''"
| "str_error OverflowError = ''int too large to convert to float''"
| "str_error ZeroDivisionError = ''0.0 cannot be raised to a negative power''"
| "str_error (ArithmeticError m) = line_text m"

fun first_match :: "(kind \<times> item list) list \<Rightarrow> string \<Rightarrow> (kind \<times> nat) option" where
  "first_match [] s = None"
| "first_match ((tok_type, pattern) # table) s =
     (case match_items pattern s of
        Some n \<Rightarrow> Some (tok_type, n)
      | None \<Rightarrow> first_match table s)"

subsection \<open>Lexer\<close>

text \<open>The character class of an item of a pattern.\<close>

fun item_cls :: "item \<Rightarrow> cls" where
  "item_cls (Once c) = c"
| "item_cls (Star c) = c"
| "item_cls (Plus c) = c"

lemma backtrack_pos:
  "backtrack m s (Suc 0) k = Some n \<Longrightarrow> 0 < n"
  by (induction k) (auto split: if_splits option.splits)

lemma first_match_pos:
  "first_match TOKEN_REGEX s = Some (ty, n) \<Longrightarrow> 0 < n"
  by (auto simp: TOKEN_REGEX_def word_def split: option.splits list.splits if_splits
      dest: backtrack_pos)

function lex_loop :: "string \<Rightarrow> nat \<Rightarrow> token list \<Rightarrow> error + token list" where
  "lex_loop text pos tokens =
     (if pos < length text then
        (case first_match TOKEN_REGEX (drop pos text) of
           None \<Rightarrow> Inl (LexError (text ! pos) pos)
         | Some (tok_type, n) \<Rightarrow>
             lex_loop text (pos + n)
               (if tok_type \<notin> {WS, COMMENT}
                then tokens @ [Token tok_type (take n (drop pos text))]
                else tokens))
      else Inr tokens)"
  by pat_completeness auto
termination
  by (relation "measure (\<lambda>(text, pos, tokens). length text - pos)")
     (auto dest: first_match_pos)

definition lex :: "string \<Rightarrow> error + token list" where
  "lex text = lex_loop text 0 []"

subsection \<open>Parser\<close>

text \<open>
  The parser builds tagged tuples.  An expression node is \<open>('num', n)\<close>, \<open>('var', name)\<close>,
  \<open>('PLUS', l, r)\<close>, \<open>('MINUS', l, r)\<close>, \<open>('pow', a, b)\<close> or \<open>('abs', a)\<close>; a value node is
  \<open>('number', n)\<close>, \<open>('list', items)\<close> or \<open>('const', expr)\<close>; a statement is
  \<open>('set', name, val)\<close>.  No other tag is ever built, so the two \<open>raise\<close> statements of the
  evaluator for an unknown tag have no counterpart here.
\<close>

datatype expr =
    NumLit int | VarRef string | Add expr expr | Sub expr expr | PowOf expr expr | AbsOf expr

datatype value_node = NumberLiteral int | ListLiteral "value_node list" | ConstExpr expr

datatype stmt = SetStmt (stmt_name: string) (stmt_val: value_node)

text \<open>The names that an expression, a value node and a statement refer to.\<close>

fun var_refs :: "expr \<Rightarrow> string list" where
  "var_refs (NumLit n) = []"
| "var_refs (VarRef name) = [name]"
| "var_refs (Add l r) = var_refs l @ var_refs r"
| "var_refs (Sub l r) = var_refs l @ var_refs r"
| "var_refs (PowOf l r) = var_refs l @ var_refs r"
| "var_refs (AbsOf a) = var_refs a"

fun value_refs :: "value_node \<Rightarrow> string list" where
  "value_refs (NumberLiteral n) = []"
| "value_refs (ListLiteral items) = concat (map value_refs items)"
| "value_refs (ConstExpr e) = var_refs e"

text \<open>Sequencing of steps that may raise: the first exception ends the computation.\<close>

definition and_then :: "error + 'a \<Rightarrow> ('a \<Rightarrow> error + 'b) \<Rightarrow> error + 'b" where
  "and_then m f = (case m of Inl e \<Rightarrow> Inl e | Inr x \<Rightarrow> f x)"

lemma and_then_cong [fundef_cong]:
  "m = m' \<Longrightarrow> (\<And>x. m' = Inr x \<Longrightarrow> f x = f' x) \<Longrightarrow> and_then m f = and_then m' f'"
  by (auto simp: and_then_def split: sum.splits)

text \<open>
  The parser object holds the token list and the cursor \<open>pos\<close>; the model passes the tokens
  from the cursor on.  \<open>peek\<close> returns the token at the cursor or \<open>None\<close>; \<open>eat\<close> checks its
  kind and moves the cursor by one.
\<close>

definition peek :: "token list \<Rightarrow> token option" where
  "peek ts = (case ts of [] \<Rightarrow> None | tok # rest \<Rightarrow> Some tok)"

definition eat :: "kind \<Rightarrow> token list \<Rightarrow> error + (token \<times> token list)" where
  "eat expected ts =
     (case ts of
        [] \<Rightarrow> Inl (SyntaxExpected expected None)
      | tok # rest \<Rightarrow>
          if ttype tok \<noteq> expected then Inl (SyntaxExpected expected (Some (ttype tok)))
          else Inr (tok, rest))"

text \<open>\<open>int(s)\<close> for a string of decimal digits, which is what a \<open>NUMBER\<close> token of the lexer
  holds.\<close>

definition py_int :: "string \<Rightarrow> int" where
  "py_int s = foldl (\<lambda>a c. 10 * a + (int (of_char c) - 48)) 0 s"

text \<open>The node \<open>(op, node, right)\<close> that \<open>parse_expr\<close> builds, where \<open>op\<close> is the kind of the
  operator token, \<open>PLUS\<close> or \<open>MINUS\<close>.\<close>

definition binary :: "kind \<Rightarrow> expr \<Rightarrow> expr \<Rightarrow> expr" where
  "binary op l r = (if op = PLUS then Add l r else Sub l r)"

lemma eat_length:
  "eat k ts = Inr (t, ts') \<Longrightarrow> length ts = Suc (length ts')"
  by (auto simp: eat_def split: list.splits if_splits)

text \<open>
  \<open>parse_term\<close> and \<open>parse_expr\<close>; \<open>parse_expr_loop\<close> is the \<open>while\<close> loop of \<open>parse_expr\<close>.  At the
  end of the tokens \<open>peek\<close> returns \<open>None\<close> and \<open>parse_term\<close> reads \<open>tok.type\<close> of it, which
  raises \<open>AttributeError\<close>.
\<close>

function parse_term :: "token list \<Rightarrow> error + (expr \<times> token list)"
  and parse_expr :: "token list \<Rightarrow> error + (expr \<times> token list)"
  and parse_expr_loop :: "expr \<Rightarrow> token list \<Rightarrow> error + (expr \<times> token list)"
where
  "parse_term ts =
     (case peek ts of
        None \<Rightarrow> Inl AttributeError
      | Some tok \<Rightarrow>
          if ttype tok = MINUS then
            and_then (eat MINUS ts) (\<lambda>(_, ts1).
            and_then (parse_term ts1) (\<lambda>(term, ts2).
            Inr (Sub (NumLit 0) term, ts2)))
          else if ttype tok = NUMBER then
            and_then (eat NUMBER ts) (\<lambda>(t, ts1).
            Inr (NumLit (py_int (tvalue t)), ts1))
          else if ttype tok = IDENT then
            and_then (eat IDENT ts) (\<lambda>(_, ts1).
            Inr (VarRef (tvalue tok), ts1))
          else if ttype tok = POW then
            and_then (eat POW ts) (\<lambda>(_, ts1).
            and_then (eat LPAREN ts1) (\<lambda>(_, ts2).
            and_then (parse_expr ts2) (\<lambda>(a, ts3).
            and_then (eat COMMA ts3) (\<lambda>(_, ts4).
            and_then (parse_expr ts4) (\<lambda>(b, ts5).
            and_then (eat RPAREN ts5) (\<lambda>(_, ts6).
            Inr (PowOf a b, ts6)))))))
          else if ttype tok = ABS then
            and_then (eat ABS ts) (\<lambda>(_, ts1).
            and_then (eat LPAREN ts1) (\<lambda>(_, ts2).
            and_then (parse_expr ts2) (\<lambda>(a, ts3).
            and_then (eat RPAREN ts3) (\<lambda>(_, ts4).
            Inr (AbsOf a, ts4)))))
          else Inl (SyntaxUnexpected (ttype tok)))"
| "parse_expr ts =
     and_then (parse_term ts) (\<lambda>(node, ts1). parse_expr_loop node ts1)"
| "parse_expr_loop node ts =
     (case peek ts of
        None \<Rightarrow> Inr (node, ts)
      | Some tok \<Rightarrow>
          if ttype tok \<in> {PLUS, MINUS} then
            and_then (eat (ttype tok) ts) (\<lambda>(op, ts1).
            and_then (parse_term ts1) (\<lambda>(right, ts2).
            parse_expr_loop (binary (ttype op) node right) ts2))
          else Inr (node, ts))"
  by pat_completeness auto


lemma and_then_Inr:
  "and_then m f = Inr y \<longleftrightarrow> (\<exists>x. m = Inr x \<and> f x = Inr y)"
  by (cases m) (auto simp: and_then_def)

lemma peek_Some: "peek ts = Some tok \<Longrightarrow> ts \<noteq> []"
  by (auto simp: peek_def)


text \<open>Every term takes at least one token; this is what makes the recursion end.\<close>

lemma parse_expr_length_partial:
  "parse_term_parse_expr_parse_expr_loop_dom (Inl ts) \<Longrightarrow>
     (\<And>x ts'. parse_term ts = Inr (x, ts') \<Longrightarrow> length ts' < length ts)"
  "parse_term_parse_expr_parse_expr_loop_dom (Inr (Inl ts)) \<Longrightarrow>
     (\<And>x ts'. parse_expr ts = Inr (x, ts') \<Longrightarrow> length ts' < length ts)"
  "parse_term_parse_expr_parse_expr_loop_dom (Inr (Inr (node, ts))) \<Longrightarrow>
     (\<And>x ts'. parse_expr_loop node ts = Inr (x, ts') \<Longrightarrow> length ts' \<le> length ts)"
proof (induction rule: parse_term_parse_expr_parse_expr_loop.pinduct)
  case (1 ts)
  note res = "1.prems" [unfolded parse_term.psimps [OF "1.hyps"]]
  from res obtain tok where pk: "peek ts = Some tok"
    by (cases "peek ts") auto
  consider (minus) "ttype tok = MINUS" | (num) "ttype tok = NUMBER" | (ident) "ttype tok = IDENT"
    | (pow) "ttype tok = POW" | (abs) "ttype tok = ABS"
    | (other) "ttype tok \<notin> {MINUS, NUMBER, IDENT, POW, ABS}"
    by auto
  then show ?case
  proof cases
    case minus
    from res pk minus obtain t1 ts1 trm where
      e1: "eat MINUS ts = Inr (t1, ts1)" and p: "parse_term ts1 = Inr (trm, ts')"
      by (auto simp: and_then_Inr)
    from "1.IH"(1) [OF pk minus e1 refl p] eat_length [OF e1] show ?thesis by simp
  next
    case num
    from res pk num obtain t1 where "eat NUMBER ts = Inr (t1, ts')"
      by (auto simp: and_then_Inr)
    then show ?thesis by (simp add: eat_length)
  next
    case ident
    from res pk ident obtain t1 where "eat IDENT ts = Inr (t1, ts')"
      by (auto simp: and_then_Inr)
    then show ?thesis by (simp add: eat_length)
  next
    case pow
    then have neq: "ttype tok \<noteq> MINUS" "ttype tok \<noteq> NUMBER" "ttype tok \<noteq> IDENT" by simp_all
    from res pk pow obtain t1 ts1 t2 ts2 a ts3 t4 ts4 b ts5 t6 where
      e1: "eat POW ts = Inr (t1, ts1)" and e2: "eat LPAREN ts1 = Inr (t2, ts2)" and
      p3: "parse_expr ts2 = Inr (a, ts3)" and e4: "eat COMMA ts3 = Inr (t4, ts4)" and
      p5: "parse_expr ts4 = Inr (b, ts5)" and e6: "eat RPAREN ts5 = Inr (t6, ts')"
      by (auto simp: and_then_Inr)
    from "1.IH"(2) [OF pk neq pow e1 refl e2 refl p3]
      "1.IH"(3) [OF pk neq pow e1 refl e2 refl p3 refl e4 refl p5]
      eat_length [OF e1] eat_length [OF e2] eat_length [OF e4] eat_length [OF e6]
    show ?thesis by simp
  next
    case abs
    then have neq: "ttype tok \<noteq> MINUS" "ttype tok \<noteq> NUMBER" "ttype tok \<noteq> IDENT"
      "ttype tok \<noteq> POW" by simp_all
    from res pk abs obtain t1 ts1 t2 ts2 a ts3 t4 where
      e1: "eat ABS ts = Inr (t1, ts1)" and e2: "eat LPAREN ts1 = Inr (t2, ts2)" and
      p3: "parse_expr ts2 = Inr (a, ts3)" and e4: "eat RPAREN ts3 = Inr (t4, ts')"
      by (auto simp: and_then_Inr)
    from "1.IH"(4) [OF pk neq abs e1 refl e2 refl p3]
      eat_length [OF e1] eat_length [OF e2] eat_length [OF e4]
    show ?thesis by simp
  next
    case other
    with res pk show ?thesis by auto
  qed
next
  case (2 ts)
  note res = "2.prems" [unfolded parse_expr.psimps [OF "2.hyps"]]
  then obtain node ts1 where p: "parse_term ts = Inr (node, ts1)"
    and l: "parse_expr_loop node ts1 = Inr (x, ts')"
    by (auto simp: and_then_Inr)
  from "2.IH"(1) [OF p] "2.IH"(2) [OF p refl l] show ?case by simp
next
  case (3 node ts)
  note res = "3.prems" [unfolded parse_expr_loop.psimps [OF "3.hyps"]]
  show ?case
  proof (cases "peek ts")
    case None
    with res show ?thesis by simp
  next
    case (Some tok)
    show ?thesis
    proof (cases "ttype tok \<in> {PLUS, MINUS}")
      case False
      with res Some show ?thesis by simp
    next
      case True
      with res Some obtain op ts1 right ts2 where
        e1: "eat (ttype tok) ts = Inr (op, ts1)" and p: "parse_term ts1 = Inr (right, ts2)" and
        l: "parse_expr_loop (binary (ttype op) node right) ts2 = Inr (x, ts')"
        by (auto simp: and_then_Inr)
      from "3.IH"(1) [OF Some True e1 refl p] "3.IH"(2) [OF Some True e1 refl p refl l]
        eat_length [OF e1]
      show ?thesis by simp
    qed
  qed
qed

termination parse_term
proof (relation "measure (\<lambda>x. case x of
         Inl ts \<Rightarrow> 2 * length ts
       | Inr (Inl ts) \<Rightarrow> 2 * length ts + 1
       | Inr (Inr (node, ts)) \<Rightarrow> 2 * length ts + 1)", goal_cases)
  case 1
  show ?case by simp
next
  case (2 ts tok x t1 ts1)
  then show ?case by (auto dest: eat_length)
next
  case (3 ts tok x t1 ts1 y t2 ts2)
  then show ?case by (auto dest!: eat_length)
next
  case (4 ts tok x t1 ts1 y t2 ts2 z a ts3 w t4 ts4)
  then show ?case
    using parse_expr_length_partial(2) [of ts2 a ts3] by (auto dest!: eat_length)
next
  case (5 ts tok x t1 ts1 y t2 ts2)
  then show ?case by (auto dest!: eat_length)
next
  case (6 ts)
  show ?case by simp
next
  case (7 ts x node ts1)
  then show ?case
    using parse_expr_length_partial(1) [of ts node ts1] by auto
next
  case (8 node ts tok x op ts1)
  then show ?case by (auto dest!: eat_length)
next
  case (9 node ts tok x op ts1 y right ts2)
  then show ?case
    using parse_expr_length_partial(1) [of ts1 right ts2] by (auto dest!: eat_length)
qed


declare parse_term.simps [simp del] parse_expr.simps [simp del] parse_expr_loop.simps [simp del]


text \<open>
  What a successful parse of an expression leaves: the tokens not yet read are a proper
  end piece of the tokens it started from, and the names in the expression are values of
  tokens.
\<close>

lemma eat_Inr: "eat k ts = Inr (t, ts') \<Longrightarrow> ts = t # ts' \<and> ttype t = k"
  by (auto simp: eat_def split: list.splits if_splits)

lemma peek_Cons: "peek (t # ts) = Some tok \<longleftrightarrow> tok = t"
  by (auto simp: peek_def)

lemma parse_expr_result:
  "parse_term ts = Inr (x, ts') \<Longrightarrow>
     suffix ts' ts \<and> length ts' < length ts \<and> set (var_refs x) \<subseteq> tvalue ` set ts"
  "parse_expr ts = Inr (x, ts') \<Longrightarrow>
     suffix ts' ts \<and> length ts' < length ts \<and> set (var_refs x) \<subseteq> tvalue ` set ts"
  "parse_expr_loop node ts = Inr (x, ts') \<Longrightarrow>
     suffix ts' ts \<and> set (var_refs x) \<subseteq> set (var_refs node) \<union> tvalue ` set ts"
proof (induction ts and ts and node ts arbitrary: x ts' and x ts' and x ts'
    rule: parse_term_parse_expr_parse_expr_loop.induct)
  case (1 ts)
  note res = "1.prems" [unfolded parse_term.simps [of ts]]
  from res obtain tok where pk: "peek ts = Some tok"
    by (cases "peek ts") auto
  consider (minus) "ttype tok = MINUS" | (num) "ttype tok = NUMBER" | (ident) "ttype tok = IDENT"
    | (pow) "ttype tok = POW" | (abs) "ttype tok = ABS"
    | (other) "ttype tok \<notin> {MINUS, NUMBER, IDENT, POW, ABS}"
    by auto
  then show ?case
  proof cases
    case minus
    from res pk minus obtain t1 ts1 trm where
      e1: "eat MINUS ts = Inr (t1, ts1)" and p: "parse_term ts1 = Inr (trm, ts')"
      and x: "x = Sub (NumLit 0) trm"
      by (auto simp: and_then_Inr)
    from "1.IH"(1) [OF pk minus e1 refl p] eat_Inr [OF e1] x show ?thesis
      by (auto simp: suffix_def)
  next
    case num
    from res pk num obtain t1 where "eat NUMBER ts = Inr (t1, ts')" "var_refs x = []"
      by (auto simp: and_then_Inr)
    then show ?thesis by (auto dest!: eat_Inr simp: suffix_def)
  next
    case ident
    from res pk ident obtain t1 where "eat IDENT ts = Inr (t1, ts')" "x = VarRef (tvalue tok)"
      by (auto simp: and_then_Inr)
    with pk show ?thesis by (auto dest!: eat_Inr simp: suffix_def peek_Cons)
  next
    case pow
    then have neq: "ttype tok \<noteq> MINUS" "ttype tok \<noteq> NUMBER" "ttype tok \<noteq> IDENT" by simp_all
    from res pk pow obtain t1 ts1 t2 ts2 a ts3 t4 ts4 b ts5 t6 where
      e1: "eat POW ts = Inr (t1, ts1)" and e2: "eat LPAREN ts1 = Inr (t2, ts2)" and
      p3: "parse_expr ts2 = Inr (a, ts3)" and e4: "eat COMMA ts3 = Inr (t4, ts4)" and
      p5: "parse_expr ts4 = Inr (b, ts5)" and e6: "eat RPAREN ts5 = Inr (t6, ts')" and
      x: "x = PowOf a b"
      by (auto simp: and_then_Inr)
    from "1.IH"(2) [OF pk neq pow e1 refl e2 refl p3]
      "1.IH"(3) [OF pk neq pow e1 refl e2 refl p3 refl e4 refl p5]
      eat_Inr [OF e1] eat_Inr [OF e2] eat_Inr [OF e4] eat_Inr [OF e6] x
    show ?thesis by (auto simp: suffix_def; blast)
  next
    case abs
    then have neq: "ttype tok \<noteq> MINUS" "ttype tok \<noteq> NUMBER" "ttype tok \<noteq> IDENT"
      "ttype tok \<noteq> POW" by simp_all
    from res pk abs obtain t1 ts1 t2 ts2 a ts3 t4 where
      e1: "eat ABS ts = Inr (t1, ts1)" and e2: "eat LPAREN ts1 = Inr (t2, ts2)" and
      p3: "parse_expr ts2 = Inr (a, ts3)" and e4: "eat RPAREN ts3 = Inr (t4, ts')" and
      x: "x = AbsOf a"
      by (auto simp: and_then_Inr)
    from "1.IH"(4) [OF pk neq abs e1 refl e2 refl p3]
      eat_Inr [OF e1] eat_Inr [OF e2] eat_Inr [OF e4] x
    show ?thesis by (auto simp: suffix_def; blast)
  next
    case other
    with res pk show ?thesis by auto
  qed
next
  case (2 ts)
  note res = "2.prems" [unfolded parse_expr.simps [of ts]]
  then obtain node ts1 where p: "parse_term ts = Inr (node, ts1)"
    and l: "parse_expr_loop node ts1 = Inr (x, ts')"
    by (auto simp: and_then_Inr)
  from "2.IH"(1) [OF p] "2.IH"(2) [OF p refl l] show ?case
    by (auto simp: suffix_def; blast)
next
  case (3 node ts)
  note res = "3.prems" [unfolded parse_expr_loop.simps [of node ts]]
  show ?case
  proof (cases "peek ts")
    case None
    with res show ?thesis by auto
  next
    case (Some tok)
    show ?thesis
    proof (cases "ttype tok \<in> {PLUS, MINUS}")
      case False
      with res Some show ?thesis by auto
    next
      case True
      with res Some obtain op ts1 right ts2 where
        e1: "eat (ttype tok) ts = Inr (op, ts1)" and p: "parse_term ts1 = Inr (right, ts2)" and
        l: "parse_expr_loop (binary (ttype op) node right) ts2 = Inr (x, ts')"
        by (auto simp: and_then_Inr)
      from "3.IH"(1) [OF Some True e1 refl p] "3.IH"(2) [OF Some True e1 refl p refl l]
        eat_Inr [OF e1]
      show ?thesis by (auto simp: suffix_def binary_def split: if_splits; blast)
    qed
  qed
qed

definition parse_const_expr :: "token list \<Rightarrow> error + (value_node \<times> token list)" where
  "parse_const_expr ts =
     and_then (eat CARET ts) (\<lambda>(_, ts1).
     and_then (eat LBRACE ts1) (\<lambda>(_, ts2).
     and_then (parse_expr ts2) (\<lambda>(expr, ts3).
     and_then (eat RBRACE ts3) (\<lambda>(_, ts4).
     Inr (ConstExpr expr, ts4)))))"

lemma parse_const_expr_length:
  assumes "parse_const_expr ts = Inr (v, ts')"
  shows "length ts' < length ts"
proof -
  from assms obtain t1 ts1 t2 ts2 e ts3 t4 where
    e1: "eat CARET ts = Inr (t1, ts1)" and e2: "eat LBRACE ts1 = Inr (t2, ts2)" and
    p3: "parse_expr ts2 = Inr (e, ts3)" and e4: "eat RBRACE ts3 = Inr (t4, ts')"
    by (auto simp: parse_const_expr_def and_then_Inr)
  from parse_expr_result(2) [OF p3] eat_length [OF e1] eat_length [OF e2] eat_length [OF e4]
  show ?thesis by simp
qed

text \<open>\<open>parse_value\<close> and \<open>parse_list\<close>; \<open>parse_list_loop\<close> is the \<open>while\<close> loop of \<open>parse_list\<close>.\<close>

function parse_value :: "token list \<Rightarrow> error + (value_node \<times> token list)"
  and parse_list :: "token list \<Rightarrow> error + (value_node \<times> token list)"
  and parse_list_loop :: "value_node list \<Rightarrow> token list \<Rightarrow> error + (value_node list \<times> token list)"
where
  "parse_value ts =
     (case peek ts of
        None \<Rightarrow> Inl AttributeError
      | Some tok \<Rightarrow>
          if ttype tok = NUMBER then
            and_then (eat NUMBER ts) (\<lambda>(t, ts1).
            Inr (NumberLiteral (py_int (tvalue t)), ts1))
          else if ttype tok = LPAREN then parse_list ts
          else if ttype tok = CARET then parse_const_expr ts
          else Inl (SyntaxUnexpected (ttype tok)))"
| "parse_list ts =
     and_then (eat LPAREN ts) (\<lambda>(_, ts1).
     and_then (eat LIST ts1) (\<lambda>(_, ts2).
     and_then (parse_list_loop [] ts2) (\<lambda>(items, ts3).
     and_then (eat RPAREN ts3) (\<lambda>(_, ts4).
     Inr (ListLiteral items, ts4)))))"
| "parse_list_loop items ts =
     (case peek ts of
        None \<Rightarrow> Inr (items, ts)
      | Some tok \<Rightarrow>
          if ttype tok \<noteq> RPAREN then
            and_then (parse_value ts) (\<lambda>(v, ts1).
            parse_list_loop (items @ [v]) ts1)
          else Inr (items, ts))"
  by pat_completeness auto

lemma parse_value_length_partial:
  "parse_value_parse_list_parse_list_loop_dom (Inl ts) \<Longrightarrow>
     (\<And>x ts'. parse_value ts = Inr (x, ts') \<Longrightarrow> length ts' < length ts)"
  "parse_value_parse_list_parse_list_loop_dom (Inr (Inl ts)) \<Longrightarrow>
     (\<And>x ts'. parse_list ts = Inr (x, ts') \<Longrightarrow> length ts' < length ts)"
  "parse_value_parse_list_parse_list_loop_dom (Inr (Inr (items, ts))) \<Longrightarrow>
     (\<And>x ts'. parse_list_loop items ts = Inr (x, ts') \<Longrightarrow> length ts' \<le> length ts)"
proof (induction rule: parse_value_parse_list_parse_list_loop.pinduct)
  case (1 ts)
  note res = "1.prems" [unfolded parse_value.psimps [OF "1.hyps"]]
  from res obtain tok where pk: "peek ts = Some tok"
    by (cases "peek ts") auto
  consider (num) "ttype tok = NUMBER" | (lparen) "ttype tok = LPAREN" | (caret) "ttype tok = CARET"
    | (other) "ttype tok \<notin> {NUMBER, LPAREN, CARET}"
    by auto
  then show ?case
  proof cases
    case num
    from res pk num obtain t1 where "eat NUMBER ts = Inr (t1, ts')"
      by (auto simp: and_then_Inr)
    then show ?thesis by (simp add: eat_length)
  next
    case lparen
    then have neq: "ttype tok \<noteq> NUMBER" by simp
    from res pk lparen have "parse_list ts = Inr (x, ts')" by simp
    from "1.IH" [OF pk neq lparen this] show ?thesis .
  next
    case caret
    with res pk have "parse_const_expr ts = Inr (x, ts')" by simp
    then show ?thesis by (rule parse_const_expr_length)
  next
    case other
    with res pk show ?thesis by auto
  qed
next
  case (2 ts)
  note res = "2.prems" [unfolded parse_list.psimps [OF "2.hyps"]]
  then obtain t1 ts1 t2 ts2 items ts3 t4 where
    e1: "eat LPAREN ts = Inr (t1, ts1)" and e2: "eat LIST ts1 = Inr (t2, ts2)" and
    p3: "parse_list_loop [] ts2 = Inr (items, ts3)" and e4: "eat RPAREN ts3 = Inr (t4, ts')"
    by (auto simp: and_then_Inr)
  from "2.IH" [OF e1 refl e2 refl p3] eat_length [OF e1] eat_length [OF e2] eat_length [OF e4]
  show ?case by simp
next
  case (3 items ts)
  note res = "3.prems" [unfolded parse_list_loop.psimps [OF "3.hyps"]]
  show ?case
  proof (cases "peek ts")
    case None
    with res show ?thesis by simp
  next
    case (Some tok)
    show ?thesis
    proof (cases "ttype tok \<noteq> RPAREN")
      case False
      with res Some show ?thesis by simp
    next
      case True
      with res Some obtain v ts1 where
        p: "parse_value ts = Inr (v, ts1)" and
        l: "parse_list_loop (items @ [v]) ts1 = Inr (x, ts')"
        by (auto simp: and_then_Inr)
      from "3.IH"(1) [OF Some True p] "3.IH"(2) [OF Some True p refl l]
      show ?thesis by simp
    qed
  qed
qed

termination parse_value
proof (relation "measure (\<lambda>x. case x of
         Inl ts \<Rightarrow> 2 * length ts + 1
       | Inr (Inl ts) \<Rightarrow> 2 * length ts
       | Inr (Inr (items, ts)) \<Rightarrow> 2 * length ts + 2)", goal_cases)
  case 1
  show ?case by simp
next
  case (2 ts tok)
  show ?case by simp
next
  case (3 ts x t1 ts1 y t2 ts2)
  then show ?case by (auto dest!: eat_length)
next
  case (4 items ts tok)
  show ?case by simp
next
  case (5 items ts tok x v ts1)
  then show ?case
    using parse_value_length_partial(1) [of ts v ts1] by auto
qed

declare parse_value.simps [simp del] parse_list.simps [simp del] parse_list_loop.simps [simp del]

text \<open>The same for values; \<open>parse_stmt\<close> and \<open>parse\<close> follow.\<close>

lemma parse_const_expr_result:
  assumes "parse_const_expr ts = Inr (v, ts')"
  shows "suffix ts' ts \<and> length ts' < length ts \<and> set (value_refs v) \<subseteq> tvalue ` set ts"
proof -
  from assms obtain t1 ts1 t2 ts2 e ts3 t4 where
    e1: "eat CARET ts = Inr (t1, ts1)" and e2: "eat LBRACE ts1 = Inr (t2, ts2)" and
    p3: "parse_expr ts2 = Inr (e, ts3)" and e4: "eat RBRACE ts3 = Inr (t4, ts')" and
    v: "v = ConstExpr e"
    by (auto simp: parse_const_expr_def and_then_Inr)
  from parse_expr_result(2) [OF p3] eat_Inr [OF e1] eat_Inr [OF e2] eat_Inr [OF e4] v
  show ?thesis by (auto simp: suffix_def; blast)
qed

lemma parse_value_result:
  "parse_value ts = Inr (v, ts') \<Longrightarrow>
     suffix ts' ts \<and> length ts' < length ts \<and> set (value_refs v) \<subseteq> tvalue ` set ts"
  "parse_list ts = Inr (v, ts') \<Longrightarrow>
     suffix ts' ts \<and> length ts' < length ts \<and> set (value_refs v) \<subseteq> tvalue ` set ts"
  "parse_list_loop items ts = Inr (vs, ts') \<Longrightarrow>
     suffix ts' ts \<and>
     (\<Union>v \<in> set vs. set (value_refs v)) \<subseteq> (\<Union>v \<in> set items. set (value_refs v)) \<union> tvalue ` set ts"
proof (induction ts and ts and items ts arbitrary: v ts' and v ts' and vs ts'
    rule: parse_value_parse_list_parse_list_loop.induct)
  case (1 ts)
  note res = "1.prems" [unfolded parse_value.simps [of ts]]
  from res obtain tok where pk: "peek ts = Some tok"
    by (cases "peek ts") auto
  consider (num) "ttype tok = NUMBER" | (lparen) "ttype tok = LPAREN" | (caret) "ttype tok = CARET"
    | (other) "ttype tok \<notin> {NUMBER, LPAREN, CARET}"
    by auto
  then show ?case
  proof cases
    case num
    from res pk num obtain t1 where "eat NUMBER ts = Inr (t1, ts')" "value_refs v = []"
      by (auto simp: and_then_Inr)
    then show ?thesis by (auto dest!: eat_Inr simp: suffix_def)
  next
    case lparen
    then have neq: "ttype tok \<noteq> NUMBER" by simp
    from res pk lparen have "parse_list ts = Inr (v, ts')" by simp
    from "1.IH" [OF pk neq lparen this] show ?thesis .
  next
    case caret
    with res pk have "parse_const_expr ts = Inr (v, ts')" by simp
    then show ?thesis by (rule parse_const_expr_result)
  next
    case other
    with res pk show ?thesis by auto
  qed
next
  case (2 ts)
  note res = "2.prems" [unfolded parse_list.simps [of ts]]
  then obtain t1 ts1 t2 ts2 items ts3 t4 where
    e1: "eat LPAREN ts = Inr (t1, ts1)" and e2: "eat LIST ts1 = Inr (t2, ts2)" and
    p3: "parse_list_loop [] ts2 = Inr (items, ts3)" and e4: "eat RPAREN ts3 = Inr (t4, ts')" and
    v: "v = ListLiteral items"
    by (auto simp: and_then_Inr)
  from "2.IH" [OF e1 refl e2 refl p3] eat_Inr [OF e1] eat_Inr [OF e2] eat_Inr [OF e4] v
  show ?case by (auto simp: suffix_def; blast)
next
  case (3 items ts)
  note res = "3.prems" [unfolded parse_list_loop.simps [of items ts]]
  show ?case
  proof (cases "peek ts")
    case None
    with res show ?thesis by auto
  next
    case (Some tok)
    show ?thesis
    proof (cases "ttype tok \<noteq> RPAREN")
      case False
      with res Some show ?thesis by auto
    next
      case True
      with res Some obtain v ts1 where
        p: "parse_value ts = Inr (v, ts1)" and
        l: "parse_list_loop (items @ [v]) ts1 = Inr (vs, ts')"
        by (auto simp: and_then_Inr)
      from "3.IH"(1) [OF Some True p] "3.IH"(2) [OF Some True p refl l]
      show ?thesis by (auto simp: suffix_def; blast)
    qed
  qed
qed

definition parse_stmt :: "token list \<Rightarrow> error + (stmt \<times> token list)" where
  "parse_stmt ts =
     and_then (eat SET ts) (\<lambda>(_, ts1).
     and_then (eat IDENT ts1) (\<lambda>(name, ts2).
     and_then (eat EQUAL ts2) (\<lambda>(_, ts3).
     and_then (parse_value ts3) (\<lambda>(val, ts4).
     and_then (eat SEMICOLON ts4) (\<lambda>(_, ts5).
     Inr (SetStmt (tvalue name) val, ts5))))))"

lemma parse_stmt_length:
  assumes "parse_stmt ts = Inr (st, ts')"
  shows "length ts' < length ts"
proof -
  from assms obtain t1 ts1 t2 ts2 t3 ts3 v ts4 t5 where
    e1: "eat SET ts = Inr (t1, ts1)" and e2: "eat IDENT ts1 = Inr (t2, ts2)" and
    e3: "eat EQUAL ts2 = Inr (t3, ts3)" and p4: "parse_value ts3 = Inr (v, ts4)" and
    e5: "eat SEMICOLON ts4 = Inr (t5, ts')"
    by (auto simp: parse_stmt_def and_then_Inr)
  from parse_value_result(1) [OF p4] eat_length [OF e1] eat_length [OF e2] eat_length [OF e3]
    eat_length [OF e5]
  show ?thesis by simp
qed

text \<open>\<open>parse\<close>: statements are read as long as a token is left.\<close>

function parse_loop :: "stmt list \<Rightarrow> token list \<Rightarrow> error + stmt list" where
  "parse_loop stmts ts =
     (case peek ts of
        None \<Rightarrow> Inr stmts
      | Some tok \<Rightarrow>
          and_then (parse_stmt ts) (\<lambda>(st, ts1).
          parse_loop (stmts @ [st]) ts1))"
  by pat_completeness auto
termination
  by (relation "measure (\<lambda>(stmts, ts). length ts)") (auto dest: parse_stmt_length)

declare parse_loop.simps [simp del]

definition parse :: "token list \<Rightarrow> error + stmt list" where
  "parse ts = parse_loop [] ts"

text \<open>
  Where a parse fails.  \<open>error_at rest e\<close>: the exception \<open>e\<close> is one that the parser raises
  with the cursor before the tokens \<open>rest\<close>: \<open>eat\<close> found a token of another kind than
  expected, or none; or the choice among the alternatives of a value or of a term found
  a token that starts none of them; or that choice found no token at all.  \<open>fails_at ts r\<close>:
  if the result \<open>r\<close> of a parse of \<open>ts\<close> is an exception, it is one raised with the cursor
  somewhere in \<open>ts\<close>.
\<close>

definition error_at :: "token list \<Rightarrow> error \<Rightarrow> bool" where
  "error_at rest e =
     (case e of
        SyntaxExpected k got \<Rightarrow> got = map_option ttype (peek rest) \<and> got \<noteq> Some k
      | SyntaxUnexpected g \<Rightarrow>
          map_option ttype (peek rest) = Some g \<and>
          (g \<notin> {MINUS, NUMBER, IDENT, POW, ABS} \<or> g \<notin> {NUMBER, LPAREN, CARET})
      | AttributeError \<Rightarrow> rest = []
      | _ \<Rightarrow> False)"

definition fails_at :: "token list \<Rightarrow> error + 'a \<Rightarrow> bool" where
  "fails_at ts r = (\<forall>e. r = Inl e \<longrightarrow> (\<exists>rest. suffix rest ts \<and> error_at rest e))"

subsection \<open>Evaluator\<close>

text \<open>
  A resolved value is a Python \<open>int\<close>, a Python \<open>list\<close> of resolved values, or a number that
  is not an integer: a \<open>float\<close> or a \<open>complex\<close>.  The program has no literal for the last,
  but \<open>a ** b\<close> with integers \<open>a\<close> and \<open>b < 0\<close> is a \<open>float\<close> (\<open>2 ** -1\<close> is \<open>0.5\<close>), which
  is stored in the dictionary, used by the expressions after it and written to the output
  like every other value.  The numbers that are not integers are the values of a type
  \<open>'n\<close> that the model leaves open.
\<close>

datatype 'n val = VInt int | VNum 'n | VList "'n val list"

text \<open>
  The floating-point arithmetic of the interpreter, which the program uses through \<open>+\<close>,
  \<open>-\<close>, \<open>**\<close>, \<open>abs\<close> and the f-string of \<open>to_toml\<close>:

  \<^item> \<open>fl_pow a b\<close> is the \<open>float\<close> that \<open>a ** b\<close> returns for integers \<open>a \<noteq> 0\<close> and \<open>b < 0\<close>
    that can both be converted to \<open>float\<close>;
  \<^item> \<open>fl_binop op x y\<close> is \<open>x op y\<close> for two numbers of which at least one is not an integer:
    the resulting number, or the message of the \<open>OverflowError\<close> or \<open>ZeroDivisionError\<close>
    that the operation raises (\<open>2 ** 1024 + 0.5\<close>, \<open>0.5 ** -2000\<close>, \<open>0.0 ** -1\<close>);
  \<^item> \<open>fl_abs x\<close> is \<open>abs(x)\<close>, in the same way;
  \<^item> \<open>fl_repr x\<close> is the text that \<open>str\<close> and \<open>repr\<close> give for \<open>x\<close>;
  \<^item> \<open>fl_complex x\<close> says whether \<open>x\<close> is a \<open>complex\<close> rather than a \<open>float\<close>
    (\<open>(-8) ** 0.5\<close> is a \<open>complex\<close>).
\<close>

datatype 'n operand = IntArg int | NumArg 'n

record 'n floats =
  fl_pow :: "int \<Rightarrow> int \<Rightarrow> 'n"
  fl_binop :: "binop \<Rightarrow> 'n operand \<Rightarrow> 'n operand \<Rightarrow> line + 'n"
  fl_abs :: "'n \<Rightarrow> line + 'n"
  fl_repr :: "'n \<Rightarrow> line"
  fl_complex :: "'n \<Rightarrow> bool"

text \<open>What a step of the evaluation does: it returns a value or it raises an exception.\<close>

datatype 'a outcome = Returns 'a | Raises error

definition then_do :: "'a outcome \<Rightarrow> ('a \<Rightarrow> 'b outcome) \<Rightarrow> 'b outcome" where
  "then_do m f = (case m of Returns x \<Rightarrow> f x | Raises e \<Rightarrow> Raises e)"

definition of_sum :: "error + 'a \<Rightarrow> 'a outcome" where
  "of_sum r = (case r of Inl e \<Rightarrow> Raises e | Inr x \<Rightarrow> Returns x)"

fun pytype_of :: "'n floats \<Rightarrow> 'n val \<Rightarrow> pytype" where
  "pytype_of fl (VInt i) = PyInt"
| "pytype_of fl (VNum x) = (if fl_complex fl x then PyComplex else PyFloat)"
| "pytype_of fl (VList xs) = PyList"

text \<open>Whether an outcome is the exception \<open>SemanticError\<close>.\<close>

fun semantic_failure :: "'a outcome \<Rightarrow> bool" where
  "semantic_failure (Raises (SemanticError name)) = True"
| "semantic_failure r = False"

text \<open>
  An integer is converted to \<open>float\<close> by rounding to the nearest \<open>float\<close>; the largest
  \<open>float\<close> is \<open>2 ^ 1024 - 2 ^ 971\<close>, and an integer of absolute value \<open>2 ^ 1024 - 2 ^ 970\<close> or
  more is too large (\<open>OverflowError: int too large to convert to float\<close>).
\<close>

definition too_large_for_float :: "int \<Rightarrow> bool" where
  "too_large_for_float i = (2 ^ 1024 - 2 ^ 970 \<le> \<bar>i\<bar>)"

text \<open>
  \<open>number_op fl op x y\<close>: the operator \<open>op\<close> on two operands that are not both integers.
  A list among them is a \<open>TypeError\<close>; two numbers are left to the floating-point
  arithmetic.
\<close>

fun as_operand :: "'n val \<Rightarrow> 'n operand option" where
  "as_operand (VInt i) = Some (IntArg i)"
| "as_operand (VNum x) = Some (NumArg x)"
| "as_operand (VList xs) = None"

definition number_op :: "'n floats \<Rightarrow> binop \<Rightarrow> 'n val \<Rightarrow> 'n val \<Rightarrow> 'n val outcome" where
  "number_op fl op x y =
     (case (as_operand x, as_operand y) of
        (Some a, Some b) \<Rightarrow>
          (case fl_binop fl op a b of
             Inl m \<Rightarrow> Raises (ArithmeticError m)
           | Inr r \<Rightarrow> Returns (VNum r))
      | _ \<Rightarrow> Raises (TypeErrorBinary op (pytype_of fl x) (pytype_of fl y)))"

text \<open>
  The operators \<open>+\<close>, \<open>-\<close>, \<open>**\<close> and \<open>abs\<close> of Python.  On two integers \<open>+\<close> and \<open>-\<close> are
  the operations of the unbounded integers, and so is \<open>**\<close> when the exponent is not
  negative.  For a negative exponent \<open>**\<close> converts both integers to \<open>float\<close> and computes
  the power there: it raises \<open>OverflowError\<close> when one of them is too large for a \<open>float\<close>,
  \<open>ZeroDivisionError\<close> when the base is zero, and returns a \<open>float\<close> otherwise.  \<open>+\<close> joins
  two lists.
\<close>

fun py_add :: "'n floats \<Rightarrow> 'n val \<Rightarrow> 'n val \<Rightarrow> 'n val outcome" where
  "py_add fl (VInt a) (VInt b) = Returns (VInt (a + b))"
| "py_add fl (VList xs) (VList ys) = Returns (VList (xs @ ys))"
| "py_add fl (VList xs) y = Raises (TypeErrorConcat (pytype_of fl y))"
| "py_add fl x y = number_op fl OpAdd x y"

fun py_sub :: "'n floats \<Rightarrow> 'n val \<Rightarrow> 'n val \<Rightarrow> 'n val outcome" where
  "py_sub fl (VInt a) (VInt b) = Returns (VInt (a - b))"
| "py_sub fl x y = number_op fl OpSub x y"

fun py_pow :: "'n floats \<Rightarrow> 'n val \<Rightarrow> 'n val \<Rightarrow> 'n val outcome" where
  "py_pow fl (VInt a) (VInt b) =
     (if 0 \<le> b then Returns (VInt (a ^ nat b))
      else if too_large_for_float a \<or> too_large_for_float b then Raises OverflowError
      else if a = 0 then Raises ZeroDivisionError
      else Returns (VNum (fl_pow fl a b)))"
| "py_pow fl x y = number_op fl OpPow x y"

fun py_abs :: "'n floats \<Rightarrow> 'n val \<Rightarrow> 'n val outcome" where
  "py_abs fl (VInt a) = Returns (VInt \<bar>a\<bar>)"
| "py_abs fl (VNum x) =
     (case fl_abs fl x of
        Inl m \<Rightarrow> Raises (ArithmeticError m)
      | Inr r \<Rightarrow> Returns (VNum r))"
| "py_abs fl (VList xs) = Raises TypeErrorAbs"

text \<open>
  The dictionary \<open>consts\<close> keeps its keys in the order of their first insertion:
  \<open>consts[name] = v\<close> replaces the value of a key that is present, where it stands, and
  adds a key that is absent at the end.
\<close>

type_synonym 'n table = "(string \<times> 'n val) list"

fun dict_set :: "'n table \<Rightarrow> string \<Rightarrow> 'n val \<Rightarrow> 'n table" where
  "dict_set [] name v = [(name, v)]"
| "dict_set ((k, w) # rest) name v =
     (if k = name then (k, v) # rest else (k, w) # dict_set rest name v)"

fun eval_expr :: "'n floats \<Rightarrow> expr \<Rightarrow> 'n table \<Rightarrow> 'n val outcome" where
  "eval_expr fl (NumLit n) consts = Returns (VInt n)"
| "eval_expr fl (VarRef name) consts =
     (case map_of consts name of
        None \<Rightarrow> Raises (SemanticError name)
      | Some v \<Rightarrow> Returns v)"
| "eval_expr fl (Add l r) consts =
     then_do (eval_expr fl l consts) (\<lambda>x. then_do (eval_expr fl r consts) (\<lambda>y. py_add fl x y))"
| "eval_expr fl (Sub l r) consts =
     then_do (eval_expr fl l consts) (\<lambda>x. then_do (eval_expr fl r consts) (\<lambda>y. py_sub fl x y))"
| "eval_expr fl (PowOf l r) consts =
     then_do (eval_expr fl l consts) (\<lambda>x. then_do (eval_expr fl r consts) (\<lambda>y. py_pow fl x y))"
| "eval_expr fl (AbsOf a) consts = then_do (eval_expr fl a consts) (py_abs fl)"

fun eval_value :: "'n floats \<Rightarrow> value_node \<Rightarrow> 'n table \<Rightarrow> 'n val outcome"
  and eval_items :: "'n floats \<Rightarrow> value_node list \<Rightarrow> 'n table \<Rightarrow> 'n val list outcome"
where
  "eval_value fl (NumberLiteral n) consts = Returns (VInt n)"
| "eval_value fl (ListLiteral items) consts =
     then_do (eval_items fl items consts) (\<lambda>vs. Returns (VList vs))"
| "eval_value fl (ConstExpr e) consts = eval_expr fl e consts"
| "eval_items fl [] consts = Returns []"
| "eval_items fl (x # xs) consts =
     then_do (eval_value fl x consts) (\<lambda>v.
     then_do (eval_items fl xs consts) (\<lambda>vs. Returns (v # vs)))"

text \<open>The loop of \<open>main\<close> over the statements.\<close>

fun eval_stmts :: "'n floats \<Rightarrow> stmt list \<Rightarrow> 'n table \<Rightarrow> 'n table outcome" where
  "eval_stmts fl [] consts = Returns consts"
| "eval_stmts fl (SetStmt name val # rest) consts =
     then_do (eval_value fl val consts) (\<lambda>v. eval_stmts fl rest (dict_set consts name v))"

text \<open>The elements of a list in the order in which they first occur: the order in which
  Python's dictionaries keep their keys.\<close>

definition first_occurrences :: "'a list \<Rightarrow> 'a list" where
  "first_occurrences xs = rev (remdups (rev xs))"

subsection \<open>TOML writer\<close>

text \<open>\<open>str.lower\<close> on characters below code point 256.\<close>

definition lower_char :: "char \<Rightarrow> char" where
  "lower_char c =
     (let n = (of_char c :: nat) in
      if (65 \<le> n \<and> n \<le> 90) \<or> (192 \<le> n \<and> n \<le> 222 \<and> n \<noteq> 215) then char_of (n + 32) else c)"

definition lower :: "string \<Rightarrow> string" where
  "lower s = map lower_char s"

fun join :: "string \<Rightarrow> string list \<Rightarrow> string" where
  "join sep [] = []"
| "join sep [x] = x"
| "join sep (x # y # ys) = x @ sep @ join sep (y # ys)"

text \<open>What \<open>f"{v}"\<close> gives for a resolved value: \<open>str\<close> of an integer or of another number,
  and for a list the \<open>repr\<close> of its elements between brackets, separated by a comma and a
  space.\<close>

fun py_str :: "'n floats \<Rightarrow> 'n val \<Rightarrow> string" where
  "py_str fl (VInt i) = str_int i"
| "py_str fl (VNum x) = line_text (fl_repr fl x)"
| "py_str fl (VList xs) = ''['' @ join '', '' (map (py_str fl) xs) @ '']''"

fun is_list :: "'n val \<Rightarrow> bool" where
  "is_list (VList xs) = True"
| "is_list (VInt i) = False"
| "is_list (VNum x) = False"

fun to_toml_loop :: "'n floats \<Rightarrow> 'n table \<Rightarrow> string list \<Rightarrow> string list" where
  "to_toml_loop fl [] lines = lines"
| "to_toml_loop fl ((k, v) # rest) lines =
     (let key = lower k in
      if is_list v then to_toml_loop fl rest (lines @ [key @ '' = '' @ py_str fl v])
      else to_toml_loop fl rest (lines @ [key @ '' = '' @ py_str fl v]))"

definition to_toml :: "'n floats \<Rightarrow> 'n table \<Rightarrow> string" where
  "to_toml fl consts = join [CHR 0x0A] (to_toml_loop fl consts [])"

text \<open>The line that the loop of \<open>to_toml\<close> appends for an entry of the dictionary.\<close>

definition entry_line :: "'n floats \<Rightarrow> string \<times> 'n val \<Rightarrow> string" where
  "entry_line fl e = lower (fst e) @ '' = '' @ py_str fl (snd e)"

subsection \<open>Main\<close>

text \<open>
  \<open>run\<close> is the body of the \<open>try\<close> statement of \<open>main\<close> on the text read from the input
  file; \<open>main\<close> is the text written to the output file: the text of \<open>to_toml\<close>, or the
  error line when the body raised.
\<close>

definition run :: "'n floats \<Rightarrow> string \<Rightarrow> string outcome" where
  "run fl text =
     then_do (of_sum (lex text)) (\<lambda>tokens.
     then_do (of_sum (parse tokens)) (\<lambda>stmts.
     then_do (eval_stmts fl stmts []) (\<lambda>consts.
     Returns (to_toml fl consts))))"

definition error_line :: "error \<Rightarrow> string" where
  "error_line e = ''ERROR = '' @ [CHR 0x22] @ str_error e @ [CHR 0x22]"

definition main :: "'n floats \<Rightarrow> string \<Rightarrow> string" where
  "main fl text =
     (case run fl text of
        Returns toml_text \<Rightarrow> toml_text
      | Raises e \<Rightarrow> error_line e)"

subsection \<open>Conditions on programs and errors\<close>

text \<open>
  \<open>runtime_error\<close>: the exceptions that Python's operators raise.  \<open>refs_defined known
  stmts\<close>: every name that a statement refers to is in \<open>known\<close> or is the name of an earlier
  statement.
\<close>

definition runtime_error :: "error \<Rightarrow> bool" where
  "runtime_error e =
     (case e of
        TypeErrorBinary op l r \<Rightarrow> True
      | TypeErrorConcat r \<Rightarrow> True
      | TypeErrorAbs \<Rightarrow> True
      | OverflowError \<Rightarrow> True
      | ZeroDivisionError \<Rightarrow> True
      | ArithmeticError m \<Rightarrow> True
      | _ \<Rightarrow> False)"


subsection \<open>An interpreter for the examples\<close>

text \<open>
  The examples below are evaluated with \<open>example_floats\<close>.  In it a number that is not an
  integer is represented by the text that \<open>repr\<close> prints for it, and it holds the one
  floating-point result that the examples compute: \<open>2 ** -1\<close> is \<open>0.5\<close>.  Nothing else of
  it is meant as the arithmetic of CPython, and no example reaches anything else of it.
\<close>

lift_definition half :: line is "''0.5''"
  by simp

lift_definition zero :: line is "''0.0''"
  by simp

lift_definition out_of_range :: line
  is "''(34, '' @ [CHR 0x27] @ ''Numerical result out of range'' @ [CHR 0x27] @ '')''"
  by simp

definition example_floats :: "line floats" where
  "example_floats =
     \<lparr> fl_pow = (\<lambda>a b. if a = 2 \<and> b = - 1 then half else zero),
       fl_binop = (\<lambda>op x y. Inl out_of_range),
       fl_abs = (\<lambda>x. Inr x),
       fl_repr = (\<lambda>x. x),
       fl_complex = (\<lambda>x. False) \<rparr>"

subsection \<open>The lexer drops blanks and comments and stops at an unknown character\<close>

lemma backtrack_last:
  "backtrack (\<lambda>t. match_items [] t) s lo k = (if lo \<le> k then Some k else None)"
  by (induction k) auto

lemma first_match_comment:
  "first_match TOKEN_REGEX (CHR ''*'' # cs) =
     Some (COMMENT, Suc (length (takeWhile (\<lambda>c. c \<noteq> CHR 0x0A) cs)))"
proof -
  have "cls_match Dot = (\<lambda>c. c \<noteq> CHR 0x0A)"
    by (rule ext) simp
  then show ?thesis
    by (simp add: TOKEN_REGEX_def backtrack_last)
qed

lemma lex_loop_kinds:
  "lex_loop text pos tokens = Inr toks \<Longrightarrow>
   \<forall>t \<in> set tokens. ttype t \<noteq> WS \<and> ttype t \<noteq> COMMENT \<Longrightarrow>
   \<forall>t \<in> set toks. ttype t \<noteq> WS \<and> ttype t \<noteq> COMMENT"
proof (induction "text" pos tokens rule: lex_loop.induct)
  case (1 src pos tokens)
  show ?case
  proof (cases "pos < length src")
    case False
    with "1.prems" show ?thesis by simp
  next
    case True
    show ?thesis
    proof (cases "first_match TOKEN_REGEX (drop pos src)")
      case None
      with True "1.prems" show ?thesis by simp
    next
      case (Some m)
      obtain tok_type n where m: "m = (tok_type, n)" by (cases m)
      let ?tokens = "if tok_type \<notin> {WS, COMMENT}
                then tokens @ [Token tok_type (take n (drop pos src))]
                else tokens"
      have "lex_loop src (pos + n) ?tokens = Inr toks"
        using "1.prems"(1) True Some m by simp
      moreover have "\<forall>t \<in> set ?tokens. ttype t \<noteq> WS \<and> ttype t \<noteq> COMMENT"
        using "1.prems"(2) by auto
      ultimately show ?thesis
        using "1.IH" [OF True Some m [symmetric]] by blast
    qed
  qed
qed

lemma lex_loop_error:
  "lex_loop text pos tokens = Inl e \<Longrightarrow>
   \<exists>p. pos \<le> p \<and> p < length text \<and> e = LexError (text ! p) p \<and>
       first_match TOKEN_REGEX (drop p text) = None"
proof (induction "text" pos tokens rule: lex_loop.induct)
  case (1 src pos tokens)
  show ?case
  proof (cases "pos < length src")
    case False
    with "1.prems" show ?thesis by simp
  next
    case True
    show ?thesis
    proof (cases "first_match TOKEN_REGEX (drop pos src)")
      case None
      with True "1.prems" show ?thesis by auto
    next
      case (Some m)
      obtain tok_type n where m: "m = (tok_type, n)" by (cases m)
      let ?tokens = "if tok_type \<notin> {WS, COMMENT}
                then tokens @ [Token tok_type (take n (drop pos src))]
                else tokens"
      have "lex_loop src (pos + n) ?tokens = Inl e"
        using "1.prems"(1) True Some m by simp
      then obtain p where "pos + n \<le> p" "p < length src" "e = LexError (src ! p) p"
        "first_match TOKEN_REGEX (drop p src) = None"
        using "1.IH" [OF True Some m [symmetric]] by blast
      then show ?thesis by (intro exI [of _ p]) simp
    qed
  qed
qed

lemma lex_loop_comment:
  assumes "pos < length text" and "text ! pos = CHR ''*''"
  shows "lex_loop text pos tokens =
     lex_loop text
       (pos + Suc (length (takeWhile (\<lambda>c. c \<noteq> CHR 0x0A) (drop (Suc pos) text)))) tokens"
proof -
  have "drop pos text = CHR ''*'' # drop (Suc pos) text"
    using assms by (metis Cons_nth_drop_Suc)
  then have "first_match TOKEN_REGEX (drop pos text) =
     Some (COMMENT, Suc (length (takeWhile (\<lambda>c. c \<noteq> CHR 0x0A) (drop (Suc pos) text))))"
    by (simp only: first_match_comment)
  with assms(1) show ?thesis
    by (subst lex_loop.simps) simp
qed

text \<open>
  Claim C9.  The tokens that \<open>lex\<close> returns are never of kind \<open>WS\<close> or \<open>COMMENT\<close>.  At an
  asterisk the scan skips a comment that ends just before the next line break (or at
  the end of the text), adding no token.  Where no pattern of the table matches, the scan
  stops there with the error \<open>LexError\<close> of the character at that position and the
  position, and an error of \<open>lex\<close> is always of this kind.
\<close>

theorem lex_drops_blanks_and_comments:
  "(\<forall>toks. lex text = Inr toks \<longrightarrow> (\<forall>t \<in> set toks. ttype t \<noteq> WS \<and> ttype t \<noteq> COMMENT))
   \<and> (\<forall>pos tokens. pos < length text \<and> text ! pos = CHR ''*'' \<longrightarrow>
          lex_loop text pos tokens =
          lex_loop text
            (pos + Suc (length (takeWhile (\<lambda>c. c \<noteq> CHR 0x0A) (drop (Suc pos) text)))) tokens)
   \<and> (\<forall>pos tokens. pos < length text \<and> first_match TOKEN_REGEX (drop pos text) = None \<longrightarrow>
          lex_loop text pos tokens = Inl (LexError (text ! pos) pos))
   \<and> (\<forall>e. lex text = Inl e \<longrightarrow>
          (\<exists>pos < length text. first_match TOKEN_REGEX (drop pos text) = None \<and>
             e = LexError (text ! pos) pos \<and>
             str_error e = ''LexError: Unexpected character '' @ quoted [text ! pos] @
               '' at position '' @ str_nat pos))"
proof (intro conjI allI impI)
  fix toks assume "lex text = Inr toks"
  then show "\<forall>t \<in> set toks. ttype t \<noteq> WS \<and> ttype t \<noteq> COMMENT"
    using lex_loop_kinds [of "text" 0 "[]" toks] by (simp add: lex_def)
next
  fix pos tokens assume "pos < length text \<and> text ! pos = CHR ''*''"
  then show "lex_loop text pos tokens =
          lex_loop text
            (pos + Suc (length (takeWhile (\<lambda>c. c \<noteq> CHR 0x0A) (drop (Suc pos) text)))) tokens"
    using lex_loop_comment by blast
next
  fix pos tokens
  assume "pos < length text \<and> first_match TOKEN_REGEX (drop pos text) = None"
  then show "lex_loop text pos tokens = Inl (LexError (text ! pos) pos)"
    by (subst lex_loop.simps) simp
next
  fix e assume "lex text = Inl e"
  then obtain p where "p < length text" "e = LexError (text ! p) p"
    "first_match TOKEN_REGEX (drop p text) = None"
    using lex_loop_error [of "text" 0 "[]" e] by (auto simp: lex_def)
  then show "\<exists>pos < length text. first_match TOKEN_REGEX (drop pos text) = None \<and>
             e = LexError (text ! pos) pos \<and>
             str_error e = ''LexError: Unexpected character '' @ quoted [text ! pos] @
               '' at position '' @ str_nat pos"
    by (intro exI [of _ p]) simp
qed

theorem lex_drops_blanks_and_comments_witness:
  "lex ''set A * x'' = Inr [Token SET ''set'', Token IDENT ''A'']
   \<and> ttype (Token SET ''set'') \<noteq> WS \<and> ttype (Token IDENT ''A'') \<noteq> COMMENT
   \<and> lex_loop ''set A * x'' 6 [] = lex_loop ''set A * x'' 9 []
   \<and> first_match TOKEN_REGEX (drop 2 ''A $'') = None
   \<and> lex_loop ''A $'' 2 [] = Inl (LexError CHR ''$'' 2)
   \<and> lex ''A $'' = Inl (LexError CHR ''$'' 2)
   \<and> str_error (LexError CHR ''$'' 2) =
        ''LexError: Unexpected character '' @ quoted ''$'' @ '' at position 2''"
proof -
  have ok: "lex ''set A * x'' = Inr [Token SET ''set'', Token IDENT ''A'']"
    by code_simp
  have bad: "lex ''A $'' = Inl (LexError CHR ''$'' 2)"
    by code_simp
  have none: "first_match TOKEN_REGEX (drop 2 ''A $'') = None"
    by code_simp
  note c1 = lex_drops_blanks_and_comments [of "''set A * x''"]
  note c2 = lex_drops_blanks_and_comments [of "''A $''"]
  have "lex_loop ''set A * x'' 6 [] = lex_loop ''set A * x'' 9 []"
    using c1 [THEN conjunct2, THEN conjunct1, rule_format, of 6 "[]"] by simp
  moreover have "lex_loop ''A $'' 2 [] = Inl (LexError CHR ''$'' 2)"
    using c2 [THEN conjunct2, THEN conjunct2, THEN conjunct1, rule_format, of 2 "[]"] none
    by simp
  moreover have "ttype (Token SET ''set'') \<noteq> WS \<and> ttype (Token IDENT ''A'') \<noteq> COMMENT"
    using c1 [THEN conjunct1, rule_format, OF ok] by simp
  moreover have "str_error (LexError CHR ''$'' 2) =
        ''LexError: Unexpected character '' @ quoted ''$'' @ '' at position 2''"
  proof -
    have two: "str_nat 2 = ''2''" by code_simp
    from c2 [THEN conjunct2, THEN conjunct2, THEN conjunct2, rule_format, OF bad]
    obtain pos where e: "LexError CHR ''$'' 2 = LexError (''A $'' ! pos) pos"
      and s: "str_error (LexError CHR ''$'' 2) =
        ''LexError: Unexpected character '' @ quoted [''A $'' ! pos] @
          '' at position '' @ str_nat pos"
      by blast
    from e have "pos = 2" by simp
    with s two show ?thesis by simp
  qed
  ultimately show ?thesis
    using ok bad none by simp
qed

subsection \<open>Expressions over lists and powers\<close>

lemma map_of_dict_set: "map_of (dict_set c name v) = (map_of c)(name \<mapsto> v)"
  by (induction c name v rule: dict_set.induct) (auto simp: fun_eq_iff)

text \<open>
  Claim C10.  A reference to a constant whose value in the dictionary is a list resolves
  to that list, also right after the statement that defined it, and \<open>Add\<close> of two operands
  that resolve to lists returns the two lists joined.
\<close>

theorem varref_list_add_concat:
  "(map_of consts name = Some (VList xs) \<longrightarrow>
      eval_expr fl (VarRef name) consts = Returns (VList xs))
   \<and> eval_expr fl (VarRef name) (dict_set consts name (VList xs)) = Returns (VList xs)
   \<and> (eval_expr fl l consts = Returns (VList xs) \<and> eval_expr fl r consts = Returns (VList ys) \<longrightarrow>
      eval_expr fl (Add l r) consts = Returns (VList (xs @ ys)))"
  by (simp add: map_of_dict_set then_do_def)

theorem varref_list_add_concat_witness:
  "map_of [(''A'', VList [VInt 1, VInt 2])] ''A'' = Some (VList [VInt 1, VInt 2])
   \<and> eval_expr example_floats (VarRef ''A'') [(''A'', VList [VInt 1, VInt 2])] =
       Returns (VList [VInt 1, VInt 2])
   \<and> eval_expr example_floats (Add (VarRef ''A'') (VarRef ''A'')) [(''A'', VList [VInt 1, VInt 2])] =
       Returns (VList [VInt 1, VInt 2, VInt 1, VInt 2])"
  using varref_list_add_concat [of "[(''A'', VList [VInt 1, VInt 2])]" "''A''" "[VInt 1, VInt 2]"
      example_floats "VarRef ''A''" "VarRef ''A''" "[VInt 1, VInt 2]"]
  by simp

text \<open>
  Claim C3 says that a power with a negative exponent fails with a semantic error.  It
  does not: in \<open>pow(2, 0 - 1)\<close> both operands resolve to integers, and \<open>2 ** -1\<close> is the
  \<open>float\<close> \<open>0.5\<close>, which is written to the output.
\<close>

theorem pow_negative_exponent_counterexample:
  "eval_expr example_floats (NumLit 2) [] = Returns (VInt 2)
   \<and> eval_expr example_floats (Sub (NumLit 0) (NumLit 1)) [] = Returns (VInt (- 1))
   \<and> eval_expr example_floats (PowOf (NumLit 2) (Sub (NumLit 0) (NumLit 1))) [] =
       Returns (VNum half)
   \<and> \<not> semantic_failure
         (eval_expr example_floats (PowOf (NumLit 2) (Sub (NumLit 0) (NumLit 1))) [])
   \<and> main example_floats ''set A = ^{ pow(2, 0 - 1) };'' = ''a = 0.5''"
  by code_simp

text \<open>
  Claim C3, amended.  When both operands of \<open>Pow\<close> resolve to integers \<open>x\<close> and \<open>y\<close>: for
  \<open>0 \<le> y\<close> the result is the integer \<open>x ^ y\<close>, exactly (integers are unbounded).  For
  \<open>y < 0\<close> no semantic error is raised: Python's \<open>**\<close> converts both integers to \<open>float\<close>; it
  raises \<open>OverflowError\<close> when \<open>x\<close> or \<open>y\<close> is too large for a \<open>float\<close>, it raises
  \<open>ZeroDivisionError\<close> when \<open>x = 0\<close>, and otherwise it returns the power as a \<open>float\<close>, a
  value that is not an integer.
\<close>

theorem pow_of_integers:
  assumes "eval_expr fl a consts = Returns (VInt x)" and "eval_expr fl b consts = Returns (VInt y)"
  shows "eval_expr fl (PowOf a b) consts =
     (if 0 \<le> y then Returns (VInt (x ^ nat y))
      else if too_large_for_float x \<or> too_large_for_float y then Raises OverflowError
      else if x = 0 then Raises ZeroDivisionError
      else Returns (VNum (fl_pow fl x y)))
   \<and> \<not> semantic_failure (eval_expr fl (PowOf a b) consts)"
  using assms by (simp add: then_do_def)

theorem pow_of_integers_witness:
  "eval_expr example_floats (NumLit 2) [] = Returns (VInt 2)
   \<and> eval_expr example_floats (NumLit 10) [] = Returns (VInt 10)
   \<and> eval_expr example_floats (PowOf (NumLit 2) (NumLit 10)) [] = Returns (VInt 1024)
   \<and> eval_expr example_floats (NumLit (- 1)) [] = Returns (VInt (- 1))
   \<and> eval_expr example_floats (PowOf (NumLit 2) (NumLit (- 1))) [] = Returns (VNum half)
   \<and> eval_expr example_floats (PowOf (NumLit 0) (NumLit (- 1))) [] = Raises ZeroDivisionError
   \<and> eval_expr example_floats (PowOf (NumLit (2 ^ 1024)) (NumLit (- 1))) [] =
       Raises OverflowError"
proof -
  have half: "fl_pow example_floats 2 (- 1) = half"
    by (simp add: example_floats_def)
  have small: "\<not> too_large_for_float 2" "\<not> too_large_for_float 0"
    "\<not> too_large_for_float (- 1)"
    by (simp_all add: too_large_for_float_def)
  have large: "too_large_for_float (2 ^ 1024)"
    by (simp add: too_large_for_float_def)
  from pow_of_integers [of example_floats "NumLit 2" "[]" 2 "NumLit 10" 10]
    pow_of_integers [of example_floats "NumLit 2" "[]" 2 "NumLit (- 1)" "- 1"]
    pow_of_integers [of example_floats "NumLit 0" "[]" 0 "NumLit (- 1)" "- 1"]
    pow_of_integers [of example_floats "NumLit (2 ^ 1024)" "[]" "2 ^ 1024" "NumLit (- 1)" "- 1"]
    half small large
  show ?thesis by simp
qed

subsection \<open>Unary minus\<close>

lemma py_int_0: "py_int ''0'' = 0"
  by (simp add: py_int_def)

lemma and_then_assoc:
  "and_then (and_then m f) g = and_then m (\<lambda>x. and_then (f x) g)"
  by (cases m) (simp_all add: and_then_def)

lemma parse_term_minus:
  "parse_term (Token MINUS m # ts) =
     and_then (parse_term ts) (\<lambda>(trm, ts2). Inr (Sub (NumLit 0) trm, ts2))"
  by (subst parse_term.simps) (simp add: peek_def eat_def and_then_def)

lemma parse_term_zero:
  "parse_term (Token NUMBER ''0'' # ts) = Inr (NumLit 0, ts)"
  by (subst parse_term.simps) (simp add: peek_def eat_def and_then_def py_int_0)

lemma parse_expr_loop_minus:
  "parse_expr_loop node (Token MINUS m # ts) =
     and_then (parse_term ts) (\<lambda>(right, ts2). parse_expr_loop (Sub node right) ts2)"
  by (subst parse_expr_loop.simps, cases "parse_term ts")
    (auto simp: peek_def eat_def and_then_def binary_def)

text \<open>
  Claim C7.  The tokens of \<open>- t\<close> and the tokens of \<open>0 - t\<close> parse to the same result as
  expressions, whatever tokens \<open>t\<close> and what follows them are: the same tree and the same
  tokens left, or the same error.  The tree of \<open>- t\<close> is the subtraction of the tree of
  \<open>t\<close> from the literal zero.
\<close>

theorem unary_minus_desugared:
  "parse_expr (Token MINUS m # ts) = parse_expr (Token NUMBER ''0'' # Token MINUS m' # ts)
   \<and> (parse_term ts = Inr (t, rest) \<longrightarrow>
        parse_term (Token MINUS m # ts) = Inr (Sub (NumLit 0) t, rest))"
proof
  have "parse_expr (Token MINUS m # ts) =
      and_then (parse_term ts) (\<lambda>(right, ts2). parse_expr_loop (Sub (NumLit 0) right) ts2)"
    by (subst parse_expr.simps, cases "parse_term ts")
      (auto simp: parse_term_minus and_then_def)
  also have "\<dots> = parse_expr (Token NUMBER ''0'' # Token MINUS m' # ts)"
    by (simp add: parse_expr.simps [of "Token NUMBER ''0'' # Token MINUS m' # ts"]
        parse_term_zero parse_expr_loop_minus and_then_def)
  finally show "parse_expr (Token MINUS m # ts) =
      parse_expr (Token NUMBER ''0'' # Token MINUS m' # ts)" .
  show "parse_term ts = Inr (t, rest) \<longrightarrow>
        parse_term (Token MINUS m # ts) = Inr (Sub (NumLit 0) t, rest)"
    by (simp add: parse_term_minus and_then_def)
qed

theorem unary_minus_desugared_witness:
  "parse_term [Token IDENT ''X''] = Inr (VarRef ''X'', [])
   \<and> parse_term [Token MINUS ''-'', Token IDENT ''X''] = Inr (Sub (NumLit 0) (VarRef ''X''), [])
   \<and> parse_expr [Token MINUS ''-'', Token IDENT ''X''] =
       parse_expr [Token NUMBER ''0'', Token MINUS ''-'', Token IDENT ''X'']"
proof -
  have "parse_term [Token IDENT ''X''] = Inr (VarRef ''X'', [])"
    by code_simp
  then show ?thesis
    using unary_minus_desugared [of "''-''" "[Token IDENT ''X'']" "''-''" "VarRef ''X''" "[]"]
    by simp
qed

subsection \<open>The lines of the output\<close>

lemma to_toml_loop_eq: "to_toml_loop fl c lines = lines @ map (entry_line fl) c"
  by (induction c arbitrary: lines) (auto simp: entry_line_def)

lemma str_nat_digits:
  "c \<in> set (str_nat n) \<Longrightarrow> (48 :: nat) \<le> of_char c \<and> (of_char c :: nat) \<le> 57"
proof (induction n rule: str_nat.induct)
  case (1 n)
  show ?case
  proof (cases "n < 10")
    case True
    with "1.prems" show ?thesis by (subst (asm) str_nat.simps) auto
  next
    case False
    have "n mod 10 < 10" by simp
    with "1.prems" "1.IH" False show ?thesis
      by (subst (asm) str_nat.simps) (auto simp: mod_less)
  qed
qed






lemma line_text_no_newline: "CHR 0x0A \<notin> set (line_text m)"
  using line_text [of m] by simp











subsection \<open>The dictionary of constants\<close>

lemma then_do_Returns:
  "then_do m f = Returns y \<longleftrightarrow> (\<exists>x. m = Returns x \<and> f x = Returns y)"
  by (cases m) (auto simp: then_do_def)

lemma then_do_Raises:
  "then_do m f = Raises e \<longleftrightarrow> m = Raises e \<or> (\<exists>x. m = Returns x \<and> f x = Raises e)"
  by (cases m) (auto simp: then_do_def)

lemma eval_stmts_append:
  "eval_stmts fl (xs @ ys) c = then_do (eval_stmts fl xs c) (\<lambda>c'. eval_stmts fl ys c')"
proof (induction xs arbitrary: c)
  case Nil
  show ?case by (simp add: then_do_def)
next
  case (Cons s xs)
  obtain n e where s: "s = SetStmt n e" by (cases s)
  show ?case
    by (cases "eval_value fl e c") (simp_all add: s then_do_def Cons.IH)
qed

lemma eval_stmts_snoc:
  "eval_stmts fl (xs @ [SetStmt n e]) c = Returns c' \<longleftrightarrow>
     (\<exists>t v. eval_stmts fl xs c = Returns t \<and> eval_value fl e t = Returns v \<and> c' = dict_set t n v)"
  by (auto simp: eval_stmts_append then_do_Returns)

lemma keys_dict_set:
  "map fst (dict_set c n v) = (if n \<in> set (map fst c) then map fst c else map fst c @ [n])"
  by (induction c n v rule: dict_set.induct) auto

lemma first_occurrences_snoc:
  "first_occurrences (xs @ [x]) =
     (if x \<in> set xs then first_occurrences xs else first_occurrences xs @ [x])"
  by (simp add: first_occurrences_def)

lemma set_first_occurrences: "set (first_occurrences xs) = set xs"
  by (simp add: first_occurrences_def)

lemma distinct_first_occurrences: "distinct (first_occurrences xs)"
  by (simp add: first_occurrences_def)

lemma first_occurrences_distinct: "distinct xs \<Longrightarrow> first_occurrences xs = xs"
  by (simp add: first_occurrences_def distinct_remdups_id)

lemma keys_eval_stmts:
  "eval_stmts fl stmts [] = Returns c \<Longrightarrow> map fst c = first_occurrences (map stmt_name stmts)"
proof (induction stmts arbitrary: c rule: rev_induct)
  case Nil
  then show ?case by (simp add: first_occurrences_def)
next
  case (snoc s stmts)
  obtain n e where s: "s = SetStmt n e" by (cases s)
  from snoc.prems obtain t v where t: "eval_stmts fl stmts [] = Returns t"
    and c: "c = dict_set t n v"
    by (auto simp: s eval_stmts_snoc)
  from snoc.IH [OF t] have k: "map fst t = first_occurrences (map stmt_name stmts)" .
  then have "set (map fst t) = set (map stmt_name stmts)"
    by (simp add: set_first_occurrences)
  with k show ?case
    by (simp add: c s keys_dict_set first_occurrences_snoc del: set_map)
qed

lemma eval_stmts_keeps:
  "eval_stmts fl post c = Returns c' \<Longrightarrow> n \<notin> stmt_name ` set post \<Longrightarrow> map_of c' n = map_of c n"
proof (induction post arbitrary: c)
  case Nil
  then show ?case by simp
next
  case (Cons s post)
  obtain m e where s: "s = SetStmt m e" by (cases s)
  from Cons.prems obtain v where "eval_stmts fl post (dict_set c m v) = Returns c'" and "m \<noteq> n"
    by (auto simp: s then_do_Returns)
  with Cons.IH [of "dict_set c m v"] Cons.prems(2) show ?case
    by (simp add: map_of_dict_set)
qed

lemma eval_stmts_prefix:
  "eval_stmts fl post c = Returns c' \<Longrightarrow> take (length c) (map fst c') = map fst c"
proof (induction post arbitrary: c)
  case Nil
  then show ?case by simp
next
  case (Cons s post)
  obtain m e where s: "s = SetStmt m e" by (cases s)
  from Cons.prems obtain v where r: "eval_stmts fl post (dict_set c m v) = Returns c'"
    by (auto simp: s then_do_Returns)
  have len: "length c \<le> length (dict_set c m v)"
    using arg_cong [OF keys_dict_set [of c m v], of length] by (simp split: if_splits)
  have "take (length c) (map fst c') =
      take (length c) (take (length (dict_set c m v)) (map fst c'))"
    using len by (simp add: min_def)
  also have "\<dots> = take (length c) (map fst (dict_set c m v))"
    by (simp only: Cons.IH [OF r])
  also have "\<dots> = map fst c"
    by (simp add: keys_dict_set)
  finally show ?case .
qed

lemma filter_key:
  "distinct (map fst xs) \<Longrightarrow> map_of xs n = Some v \<Longrightarrow> filter (\<lambda>e. fst e = n) xs = [(n, v)]"
proof (induction xs)
  case Nil
  then show ?case by simp
next
  case (Cons x xs)
  show ?case
  proof (cases "fst x = n")
    case True
    with Cons.prems have "x = (n, v)" by (cases x) simp
    moreover from Cons.prems True have "filter (\<lambda>e. fst e = n) xs = []"
      by (auto simp: filter_empty_conv image_iff)
    ultimately show ?thesis by simp
  next
    case False
    with Cons show ?thesis by (cases x) auto
  qed
qed


text \<open>
  Claim C5.  Let the statements \<open>pre\<close> evaluate to the dictionary \<open>t\<close>, let \<open>n\<close> be declared in
  \<open>pre\<close> and let the value of a further statement for \<open>n\<close> resolve to \<open>v\<close>.  Then the
  evaluation of \<open>pre\<close> followed by that statement succeeds; the dictionary keeps its keys
  and their positions, \<open>n\<close> now has the value \<open>v\<close> and every other name its old value.
  Whatever statements follow that do not declare \<open>n\<close> again, if they evaluate: the keys of
  the final dictionary are the declared names in the order of their first declaration
  (the keys of \<open>t\<close> first, unmoved), \<open>n\<close> has exactly one entry, with the value \<open>v\<close>, and the
  output has one line for each entry in that order.  The values are of any kind: an
  integer, a list, or the \<open>float\<close> of a negative power.
\<close>

theorem redeclaration_overwrites:
  assumes run: "eval_stmts fl pre [] = Returns t"
    and declared: "n \<in> stmt_name ` set pre"
    and val: "eval_value fl e t = Returns v"
  shows "eval_stmts fl (pre @ [SetStmt n e]) [] = Returns (dict_set t n v)
     \<and> map fst (dict_set t n v) = map fst t
     \<and> map_of (dict_set t n v) n = Some v
     \<and> (\<forall>m. m \<noteq> n \<longrightarrow> map_of (dict_set t n v) m = map_of t m)
     \<and> (\<forall>post consts.
          n \<notin> stmt_name ` set post \<and>
          eval_stmts fl (pre @ [SetStmt n e] @ post) [] = Returns consts \<longrightarrow>
            map fst consts = first_occurrences (map stmt_name (pre @ [SetStmt n e] @ post))
          \<and> take (length t) (map fst consts) = map fst t
          \<and> filter (\<lambda>e. fst e = n) consts = [(n, v)]
          \<and> to_toml fl consts = join [CHR 0x0A] (map (entry_line fl) consts))"
proof (intro conjI allI impI)
  show step: "eval_stmts fl (pre @ [SetStmt n e]) [] = Returns (dict_set t n v)"
    using run val by (simp add: eval_stmts_snoc)
  have "set (map fst t) = set (map stmt_name pre)"
    using keys_eval_stmts [OF run] by (simp add: set_first_occurrences)
  with declared have "n \<in> set (map fst t)"
    by simp
  then show keys: "map fst (dict_set t n v) = map fst t"
    by (simp only: keys_dict_set if_True)
  show "map_of (dict_set t n v) n = Some v"
    by (simp add: map_of_dict_set)
  show "map_of (dict_set t n v) m = map_of t m" if "m \<noteq> n" for m
    using that by (simp add: map_of_dict_set)
  fix post final
  assume a: "n \<notin> stmt_name ` set post \<and>
    eval_stmts fl (pre @ [SetStmt n e] @ post) [] = Returns final"
  then have all: "eval_stmts fl ((pre @ [SetStmt n e]) @ post) [] = Returns final"
    by simp
  then have post: "eval_stmts fl post (dict_set t n v) = Returns final"
    unfolding eval_stmts_append [of fl "pre @ [SetStmt n e]" post] step
    by (simp add: then_do_def)
  from a show ks: "map fst final =
      first_occurrences (map stmt_name (pre @ [SetStmt n e] @ post))"
    by (intro keys_eval_stmts [of fl]) simp
  have "take (length (dict_set t n v)) (map fst final) = map fst (dict_set t n v)"
    using post by (rule eval_stmts_prefix)
  moreover have "length (dict_set t n v) = length t"
    using arg_cong [OF keys, of length] by simp
  ultimately show "take (length t) (map fst final) = map fst t"
    by (simp add: keys)
  have "map_of final n = Some v"
    using eval_stmts_keeps [OF post] a by (simp add: map_of_dict_set)
  moreover have "distinct (map fst final)"
    by (simp only: ks distinct_first_occurrences)
  ultimately show "filter (\<lambda>e. fst e = n) final = [(n, v)]"
    by (intro filter_key)
  show "to_toml fl final = join [CHR 0x0A] (map (entry_line fl) final)"
    by (simp add: to_toml_def to_toml_loop_eq)
qed

theorem redeclaration_overwrites_witness:
  "eval_stmts example_floats [SetStmt ''A'' (NumberLiteral 1), SetStmt ''B'' (NumberLiteral 2)] [] =
     Returns [(''A'', VInt 1), (''B'', VInt 2)]
   \<and> ''A'' \<in> stmt_name ` set [SetStmt ''A'' (NumberLiteral 1), SetStmt ''B'' (NumberLiteral 2)]
   \<and> eval_value example_floats (ConstExpr (Add (VarRef ''A'') (VarRef ''B'')))
        [(''A'', VInt 1), (''B'', VInt 2)] = Returns (VInt 3)
   \<and> eval_stmts example_floats [SetStmt ''A'' (NumberLiteral 1), SetStmt ''B'' (NumberLiteral 2),
        SetStmt ''A'' (ConstExpr (Add (VarRef ''A'') (VarRef ''B'')))] [] =
     Returns [(''A'', VInt 3), (''B'', VInt 2)]
   \<and> to_toml example_floats [(''A'', VInt 3), (''B'', VInt 2)] = ''a = 3\<newline>b = 2''
   \<and> eval_stmts example_floats
        [SetStmt ''A'' (ConstExpr (PowOf (NumLit 2) (Sub (NumLit 0) (NumLit 1))))] [] =
     Returns [(''A'', VNum half)]
   \<and> eval_value example_floats (NumberLiteral 1) [(''A'', VNum half)] = Returns (VInt 1)
   \<and> eval_stmts example_floats
        [SetStmt ''A'' (ConstExpr (PowOf (NumLit 2) (Sub (NumLit 0) (NumLit 1)))),
         SetStmt ''A'' (NumberLiteral 1)] [] =
     Returns [(''A'', VInt 1)]
   \<and> main example_floats ''set A = ^{ pow(2, -1) }; set A = 1;'' = ''a = 1''"
proof -
  have run: "eval_stmts example_floats
      [SetStmt ''A'' (NumberLiteral 1), SetStmt ''B'' (NumberLiteral 2)] [] =
     Returns [(''A'', VInt 1), (''B'', VInt 2)]"
    by (simp add: then_do_def)
  have declared:
    "''A'' \<in> stmt_name ` set [SetStmt ''A'' (NumberLiteral 1), SetStmt ''B'' (NumberLiteral 2)]"
    by simp
  have val: "eval_value example_floats (ConstExpr (Add (VarRef ''A'') (VarRef ''B'')))
      [(''A'', VInt 1), (''B'', VInt 2)] = Returns (VInt 3)"
    by (simp add: then_do_def)
  have out: "to_toml example_floats [(''A'', VInt 3), (''B'', VInt 2)] = ''a = 3\<newline>b = 2''"
    by code_simp
  have run': "eval_stmts example_floats
      [SetStmt ''A'' (ConstExpr (PowOf (NumLit 2) (Sub (NumLit 0) (NumLit 1))))] [] =
     Returns [(''A'', VNum half)]"
    by code_simp
  have declared': "''A'' \<in> stmt_name `
      set [SetStmt ''A'' (ConstExpr (PowOf (NumLit 2) (Sub (NumLit 0) (NumLit 1))))]"
    by simp
  have val': "eval_value example_floats (NumberLiteral 1) [(''A'', VNum half)] = Returns (VInt 1)"
    by simp
  have out': "main example_floats ''set A = ^{ pow(2, -1) }; set A = 1;'' = ''a = 1''"
    by code_simp
  from redeclaration_overwrites [OF run declared val, THEN conjunct1]
    redeclaration_overwrites [OF run' declared' val', THEN conjunct1]
    run declared val out run' val' out'
  show ?thesis by simp
qed

subsection \<open>Characters of tokens\<close>

lemma backtrack_Some:
  "backtrack m s lo k = Some n \<Longrightarrow> \<exists>j r. j \<le> k \<and> m (drop j s) = Some r \<and> n = j + r"
proof (induction k)
  case 0
  then show ?case by (auto split: if_splits)
next
  case (Suc k)
  show ?case
  proof (cases "m (drop (Suc k) s)")
    case None
    with Suc.prems have "backtrack m s lo k = Some n" by (auto split: if_splits)
    from Suc.IH [OF this] obtain j r where "j \<le> k" "m (drop j s) = Some r" "n = j + r"
      by blast
    then show ?thesis by (intro exI [of _ j] exI [of _ r]) simp
  next
    case (Some r)
    with Suc.prems have "n = Suc k + r" by (auto split: if_splits)
    with Some show ?thesis by (intro exI [of _ "Suc k"] exI [of _ r]) simp
  qed
qed

lemma take_takeWhile:
  "j \<le> length (takeWhile P s) \<Longrightarrow> c \<in> set (take j s) \<Longrightarrow> P c"
proof (induction s arbitrary: j)
  case Nil
  then show ?case by simp
next
  case (Cons a s)
  show ?case
  proof (cases j)
    case 0
    with Cons.prems show ?thesis by simp
  next
    case (Suc i)
    with Cons.prems have "P a" and "i \<le> length (takeWhile P s)"
      by (auto split: if_splits)
    with Cons.prems Cons.IH [of i] Suc show ?thesis by auto
  qed
qed

lemma match_items_chars:
  "match_items p s = Some n \<Longrightarrow>
     \<forall>c \<in> set (take n s). \<exists>i \<in> set p. cls_match (item_cls i) c"
proof (induction p s arbitrary: n rule: match_items.induct)
  case (1 s)
  then show ?case by simp
next
  case (2 c p s)
  from "2.prems" obtain x xs z where s: "s = x # xs" and x: "cls_match c x"
    and z: "match_items p xs = Some z" and n: "n = Suc z"
    by (cases s) (auto split: if_splits)
  from "2.IH" [OF s x z] x show ?case
    by (auto simp: s n)
next
  case (3 c p s)
  from "3.prems" obtain j r where j: "j \<le> length (takeWhile (cls_match c) s)"
    and r: "match_items p (drop j s) = Some r" and n: "n = j + r"
    by (auto dest!: backtrack_Some)
  have "take n s = take j s @ take r (drop j s)" by (simp add: n take_add)
  with "3.IH" [OF r] take_takeWhile [OF j] show ?case by fastforce
next
  case (4 c p s)
  from "4.prems" obtain j r where j: "j \<le> length (takeWhile (cls_match c) s)"
    and r: "match_items p (drop j s) = Some r" and n: "n = j + r"
    by (auto dest!: backtrack_Some)
  have "take n s = take j s @ take r (drop j s)" by (simp add: n take_add)
  with "4.IH" [OF r] take_takeWhile [OF j] show ?case by fastforce
qed

lemma first_match_Some:
  "first_match table s = Some (ty, n) \<Longrightarrow> \<exists>p. (ty, p) \<in> set table \<and> match_items p s = Some n"
  by (induction table s rule: first_match.induct) (auto split: option.splits)

lemma first_match_no_newline:
  assumes "first_match TOKEN_REGEX s = Some (ty, n)" and "ty \<noteq> WS"
  shows "CHR 0x0A \<notin> set (take n s)"
proof
  assume nl: "CHR 0x0A \<in> set (take n s)"
  from first_match_Some [OF assms(1)] obtain p where p: "(ty, p) \<in> set TOKEN_REGEX"
    and m: "match_items p s = Some n" by blast
  from match_items_chars [OF m] nl obtain i where "i \<in> set p" "cls_match (item_cls i) (CHR 0x0A)"
    by blast
  with p assms(2) show False
    by (auto simp: TOKEN_REGEX_def word_def)
qed

lemma first_match_newline:
  "first_match TOKEN_REGEX (CHR 0x0A # s) \<noteq> None"
proof -
  have "backtrack (\<lambda>t. match_items [] t) (CHR 0x0A # s) 1
      (length (takeWhile (cls_match (OneOf [CHR '' '', CHR 0x09, CHR 0x0A])) (CHR 0x0A # s))) \<noteq> None"
    by (simp add: backtrack_last)
  then show ?thesis
    by (auto simp: TOKEN_REGEX_def word_def split: option.splits)
qed

subsection \<open>Where the parser fails\<close>

lemma fails_at_Inr: "fails_at ts (Inr x)"
  by (simp add: fails_at_def)

lemma fails_at_here: "error_at ts e \<Longrightarrow> fails_at ts (Inl e)"
  by (auto simp: fails_at_def)

lemma fails_at_eat: "fails_at ts (eat k ts)"
  by (auto simp: fails_at_def eat_def error_at_def peek_def split: list.splits
      intro!: exI [of _ ts])

lemma fails_at_and_then:
  assumes "fails_at ts m"
    and "\<And>x ts1. m = Inr (x, ts1) \<Longrightarrow> suffix ts1 ts"
    and "\<And>x ts1. m = Inr (x, ts1) \<Longrightarrow> fails_at ts1 (g x ts1)"
  shows "fails_at ts (and_then m (\<lambda>(x, ts1). g x ts1))"
proof (cases m)
  case (Inl e)
  with assms(1) show ?thesis by (simp add: and_then_def fails_at_def)
next
  case (Inr r)
  obtain x ts1 where r: "r = (x, ts1)" by (cases r)
  from assms(2,3) [of x ts1] Inr r show ?thesis
    by (auto simp: and_then_def fails_at_def intro: suffix_order.trans)
qed

lemma eat_suffix: "eat k ts = Inr (x, ts1) \<Longrightarrow> suffix ts1 ts"
  by (auto dest!: eat_Inr simp: suffix_def)

lemma parse_term_suffix: "parse_term ts = Inr (x, ts1) \<Longrightarrow> suffix ts1 ts"
  by (simp add: parse_expr_result(1))

lemma parse_expr_suffix: "parse_expr ts = Inr (x, ts1) \<Longrightarrow> suffix ts1 ts"
  by (simp add: parse_expr_result(2))

lemma parse_expr_fails:
  "fails_at ts (parse_term ts)"
  "fails_at ts (parse_expr ts)"
  "fails_at ts (parse_expr_loop node ts)"
proof (induction ts and ts and node ts rule: parse_term_parse_expr_parse_expr_loop.induct)
  case (1 ts)
  show ?case
  proof (cases "peek ts")
    case None
    then have "ts = []" by (simp add: peek_def split: list.splits)
    with None show ?thesis
      by (subst parse_term.simps) (simp add: fails_at_here error_at_def)
  next
    case (Some tok)
    note IH = "1.IH" [OF Some]
    consider (minus) "ttype tok = MINUS" | (num) "ttype tok = NUMBER" | (ident) "ttype tok = IDENT"
      | (pow) "ttype tok = POW" | (abs) "ttype tok = ABS"
      | (other) "ttype tok \<notin> {MINUS, NUMBER, IDENT, POW, ABS}"
      by auto
    then show ?thesis
    proof cases
      case minus
      have "fails_at ts (and_then (eat MINUS ts) (\<lambda>(_, ts1).
            and_then (parse_term ts1) (\<lambda>(term, ts2).
            Inr (Sub (NumLit 0) term, ts2))))"
        by (rule fails_at_and_then fails_at_eat fails_at_Inr | erule eat_suffix parse_term_suffix
            | (rule IH(1) [OF minus]; (assumption | rule refl)))+
      with Some minus show ?thesis by (subst parse_term.simps) simp
    next
      case num
      have "fails_at ts (and_then (eat NUMBER ts) (\<lambda>(t, ts1).
            Inr (NumLit (py_int (tvalue t)), ts1)))"
        by (rule fails_at_and_then fails_at_eat fails_at_Inr | erule eat_suffix)+
      with Some num show ?thesis by (subst parse_term.simps) simp
    next
      case ident
      have "fails_at ts (and_then (eat IDENT ts) (\<lambda>(_, ts1).
            Inr (VarRef (tvalue tok), ts1)))"
        by (rule fails_at_and_then fails_at_eat fails_at_Inr | erule eat_suffix)+
      with Some ident show ?thesis by (subst parse_term.simps) simp
    next
      case pow
      then have neq: "ttype tok \<noteq> MINUS" "ttype tok \<noteq> NUMBER" "ttype tok \<noteq> IDENT"
        by simp_all
      have "fails_at ts (and_then (eat POW ts) (\<lambda>(_, ts1).
            and_then (eat LPAREN ts1) (\<lambda>(_, ts2).
            and_then (parse_expr ts2) (\<lambda>(a, ts3).
            and_then (eat COMMA ts3) (\<lambda>(_, ts4).
            and_then (parse_expr ts4) (\<lambda>(b, ts5).
            and_then (eat RPAREN ts5) (\<lambda>(_, ts6).
            Inr (PowOf a b, ts6))))))))"
        by (rule fails_at_and_then fails_at_eat fails_at_Inr | erule eat_suffix parse_expr_suffix
            | (rule IH(2) [OF neq pow]; (assumption | rule refl))
            | (rule IH(3) [OF neq pow]; (assumption | rule refl)))+
      with Some pow show ?thesis by (subst parse_term.simps) simp
    next
      case abs
      then have neq: "ttype tok \<noteq> MINUS" "ttype tok \<noteq> NUMBER" "ttype tok \<noteq> IDENT"
        "ttype tok \<noteq> POW" by simp_all
      have "fails_at ts (and_then (eat ABS ts) (\<lambda>(_, ts1).
            and_then (eat LPAREN ts1) (\<lambda>(_, ts2).
            and_then (parse_expr ts2) (\<lambda>(a, ts3).
            and_then (eat RPAREN ts3) (\<lambda>(_, ts4).
            Inr (AbsOf a, ts4))))))"
        by (rule fails_at_and_then fails_at_eat fails_at_Inr | erule eat_suffix parse_expr_suffix
            | (rule IH(4) [OF neq abs]; (assumption | rule refl)))+
      with Some abs show ?thesis by (subst parse_term.simps) simp
    next
      case other
      with Some have "error_at ts (SyntaxUnexpected (ttype tok))"
        by (auto simp: error_at_def)
      with Some other show ?thesis
        by (subst parse_term.simps) (auto simp: fails_at_here)
    qed
  qed
next
  case (2 ts)
  have "fails_at ts (and_then (parse_term ts) (\<lambda>(node, ts1). parse_expr_loop node ts1))"
    by (rule fails_at_and_then "2.IH"(1) | erule parse_term_suffix
        | (rule "2.IH"(2); (assumption | rule refl)))+
  then show ?case by (subst parse_expr.simps)
next
  case (3 node ts)
  show ?case
  proof (cases "peek ts")
    case None
    then show ?thesis by (subst parse_expr_loop.simps) (simp add: fails_at_Inr)
  next
    case (Some tok)
    show ?thesis
    proof (cases "ttype tok \<in> {PLUS, MINUS}")
      case False
      with Some show ?thesis by (subst parse_expr_loop.simps) (simp add: fails_at_Inr)
    next
      case True
      note IH = "3.IH" [OF Some True]
      have "fails_at ts (and_then (eat (ttype tok) ts) (\<lambda>(op, ts1).
            and_then (parse_term ts1) (\<lambda>(right, ts2).
            parse_expr_loop (binary (ttype op) node right) ts2)))"
        by (rule fails_at_and_then fails_at_eat | erule eat_suffix parse_term_suffix
            | (rule IH(1); (assumption | rule refl))
            | (rule IH(2); (assumption | rule refl)))+
      with Some True show ?thesis by (subst parse_expr_loop.simps) simp
    qed
  qed
qed

lemma parse_value_suffix: "parse_value ts = Inr (x, ts1) \<Longrightarrow> suffix ts1 ts"
  by (simp add: parse_value_result(1))

lemma parse_list_loop_suffix: "parse_list_loop items ts = Inr (x, ts1) \<Longrightarrow> suffix ts1 ts"
  by (simp add: parse_value_result(3))

lemma parse_const_expr_fails: "fails_at ts (parse_const_expr ts)"
  unfolding parse_const_expr_def
  by (rule fails_at_and_then fails_at_eat fails_at_Inr parse_expr_fails(2)
      | erule eat_suffix parse_expr_suffix)+

lemma parse_value_fails:
  "fails_at ts (parse_value ts)"
  "fails_at ts (parse_list ts)"
  "fails_at ts (parse_list_loop items ts)"
proof (induction ts and ts and items ts rule: parse_value_parse_list_parse_list_loop.induct)
  case (1 ts)
  show ?case
  proof (cases "peek ts")
    case None
    then have "ts = []" by (simp add: peek_def split: list.splits)
    with None show ?thesis
      by (subst parse_value.simps) (simp add: fails_at_here error_at_def)
  next
    case (Some tok)
    consider (num) "ttype tok = NUMBER" | (lparen) "ttype tok = LPAREN"
      | (caret) "ttype tok = CARET" | (other) "ttype tok \<notin> {NUMBER, LPAREN, CARET}"
      by auto
    then show ?thesis
    proof cases
      case num
      have "fails_at ts (and_then (eat NUMBER ts) (\<lambda>(t, ts1).
            Inr (NumberLiteral (py_int (tvalue t)), ts1)))"
        by (rule fails_at_and_then fails_at_eat fails_at_Inr | erule eat_suffix)+
      with Some num show ?thesis by (subst parse_value.simps) simp
    next
      case lparen
      then have neq: "ttype tok \<noteq> NUMBER" by simp
      from "1.IH" [OF Some neq lparen] Some lparen show ?thesis
        by (subst parse_value.simps) simp
    next
      case caret
      with Some parse_const_expr_fails [of ts] show ?thesis
        by (subst parse_value.simps) simp
    next
      case other
      with Some have "error_at ts (SyntaxUnexpected (ttype tok))"
        by (auto simp: error_at_def)
      with Some other show ?thesis
        by (subst parse_value.simps) (auto simp: fails_at_here)
    qed
  qed
next
  case (2 ts)
  have "fails_at ts (and_then (eat LPAREN ts) (\<lambda>(_, ts1).
     and_then (eat LIST ts1) (\<lambda>(_, ts2).
     and_then (parse_list_loop [] ts2) (\<lambda>(items, ts3).
     and_then (eat RPAREN ts3) (\<lambda>(_, ts4).
     Inr (ListLiteral items, ts4))))))"
    by (rule fails_at_and_then fails_at_eat fails_at_Inr
        | erule eat_suffix parse_list_loop_suffix
        | (rule "2.IH"; (assumption | rule refl)))+
  then show ?case by (subst parse_list.simps)
next
  case (3 items ts)
  show ?case
  proof (cases "peek ts")
    case None
    then show ?thesis by (subst parse_list_loop.simps) (simp add: fails_at_Inr)
  next
    case (Some tok)
    show ?thesis
    proof (cases "ttype tok \<noteq> RPAREN")
      case False
      with Some show ?thesis by (subst parse_list_loop.simps) (simp add: fails_at_Inr)
    next
      case True
      note IH = "3.IH" [OF Some True]
      have "fails_at ts (and_then (parse_value ts) (\<lambda>(v, ts1).
            parse_list_loop (items @ [v]) ts1))"
        by (rule fails_at_and_then IH(1) | erule parse_value_suffix
            | (rule IH(2); (assumption | rule refl)))+
      with Some True show ?thesis by (subst parse_list_loop.simps) simp
    qed
  qed
qed

lemma parse_stmt_fails: "fails_at ts (parse_stmt ts)"
  unfolding parse_stmt_def
  by (rule fails_at_and_then fails_at_eat fails_at_Inr parse_value_fails(1)
      | erule eat_suffix parse_value_suffix)+

lemma parse_stmt_result:
  assumes "parse_stmt ts = Inr (st, ts')"
  shows "suffix ts' ts \<and> stmt_name st \<in> tvalue ` set ts \<and>
     set (value_refs (stmt_val st)) \<subseteq> tvalue ` set ts"
proof -
  from assms obtain t1 ts1 t2 ts2 t3 ts3 v ts4 t5 where
    e1: "eat SET ts = Inr (t1, ts1)" and e2: "eat IDENT ts1 = Inr (t2, ts2)" and
    e3: "eat EQUAL ts2 = Inr (t3, ts3)" and p4: "parse_value ts3 = Inr (v, ts4)" and
    e5: "eat SEMICOLON ts4 = Inr (t5, ts')" and st: "st = SetStmt (tvalue t2) v"
    by (auto simp: parse_stmt_def and_then_Inr)
  from parse_value_result(1) [OF p4] eat_Inr [OF e1] eat_Inr [OF e2] eat_Inr [OF e3]
    eat_Inr [OF e5] st
  show ?thesis by (auto simp: suffix_def; blast)
qed

lemma parse_loop_fails: "fails_at ts (parse_loop stmts ts)"
proof (induction stmts ts rule: parse_loop.induct)
  case (1 stmts ts)
  show ?case
  proof (cases "peek ts")
    case None
    then show ?thesis by (subst parse_loop.simps) (simp add: fails_at_Inr)
  next
    case (Some tok)
    have "fails_at ts (and_then (parse_stmt ts) (\<lambda>(st, ts1). parse_loop (stmts @ [st]) ts1))"
      by (rule fails_at_and_then parse_stmt_fails
          | erule parse_stmt_result [THEN conjunct1]
          | (rule "1.IH" [OF Some]; (assumption | rule refl)))+
    with Some show ?thesis by (subst parse_loop.simps) simp
  qed
qed

lemma parse_loop_result:
  "parse_loop acc ts = Inr stmts \<Longrightarrow>
     \<forall>st \<in> set stmts. st \<in> set acc \<or>
       (stmt_name st \<in> tvalue ` set ts \<and> set (value_refs (stmt_val st)) \<subseteq> tvalue ` set ts)"
proof (induction acc ts rule: parse_loop.induct)
  case (1 acc ts)
  note res = "1.prems" [unfolded parse_loop.simps [of acc ts]]
  show ?case
  proof (cases "peek ts")
    case None
    with res show ?thesis by simp
  next
    case (Some tok)
    with res obtain st ts1 where p: "parse_stmt ts = Inr (st, ts1)"
      and l: "parse_loop (acc @ [st]) ts1 = Inr stmts"
      by (auto simp: and_then_Inr)
    from parse_stmt_result [OF p] have "set ts1 \<subseteq> set ts"
      by (auto simp: suffix_def)
    then have mono: "tvalue ` set ts1 \<subseteq> tvalue ` set ts"
      by (rule image_mono)
    show ?thesis
    proof
      fix s assume "s \<in> set stmts"
      with "1.IH" [OF Some p refl l] consider "s \<in> set acc" | "s = st"
        | "stmt_name s \<in> tvalue ` set ts1 \<and> set (value_refs (stmt_val s)) \<subseteq> tvalue ` set ts1"
        by auto
      then show "s \<in> set acc \<or>
          (stmt_name s \<in> tvalue ` set ts \<and> set (value_refs (stmt_val s)) \<subseteq> tvalue ` set ts)"
      proof cases
        case 1
        then show ?thesis by simp
      next
        case 2
        with parse_stmt_result [OF p] show ?thesis by simp
      next
        case 3
        with mono show ?thesis by blast
      qed
    qed
  qed
qed


text \<open>
  At the end of the tokens that choice reads \<open>tok.type\<close> of \<open>None\<close>: the exception is an
  \<open>AttributeError\<close>, not one of the parser's syntax errors, while \<open>eat\<close> reports \<open>EOF\<close> there.
\<close>

lemma parse_at_end_of_input:
  "parse_value [] = Inl AttributeError"
  "parse_term [] = Inl AttributeError"
  "parse [Token SET ''set'', Token IDENT ''A'', Token EQUAL ''=''] = Inl AttributeError"
  "str_error AttributeError =
     quoted ''NoneType'' @ '' object has no attribute '' @ quoted ''type''"
  by code_simp+



subsection \<open>What the evaluation raises\<close>

lemma lex_loop_values:
  "lex_loop text pos tokens = Inr toks \<Longrightarrow>
   \<forall>t \<in> set tokens. CHR 0x0A \<notin> set (tvalue t) \<Longrightarrow>
   \<forall>t \<in> set toks. CHR 0x0A \<notin> set (tvalue t)"
proof (induction "text" pos tokens rule: lex_loop.induct)
  case (1 src pos tokens)
  show ?case
  proof (cases "pos < length src")
    case False
    with "1.prems" show ?thesis by simp
  next
    case True
    show ?thesis
    proof (cases "first_match TOKEN_REGEX (drop pos src)")
      case None
      with True "1.prems" show ?thesis by simp
    next
      case (Some m)
      obtain tok_type n where m: "m = (tok_type, n)" by (cases m)
      let ?tokens = "if tok_type \<notin> {WS, COMMENT}
                then tokens @ [Token tok_type (take n (drop pos src))]
                else tokens"
      have "lex_loop src (pos + n) ?tokens = Inr toks"
        using "1.prems"(1) True Some m by simp
      moreover have "\<forall>t \<in> set ?tokens. CHR 0x0A \<notin> set (tvalue t)"
        using "1.prems"(2) first_match_no_newline [of "drop pos src" tok_type n] Some m
        by auto
      ultimately show ?thesis
        using "1.IH" [OF True Some m [symmetric]] by blast
    qed
  qed
qed

lemma lex_values: "lex text = Inr toks \<Longrightarrow> t \<in> set toks \<Longrightarrow> CHR 0x0A \<notin> set (tvalue t)"
  using lex_loop_values [of "text" 0 "[]" toks] by (simp add: lex_def)

lemma lex_error_char:
  assumes "lex text = Inl e"
  shows "\<exists>c pos. e = LexError c pos \<and> c \<noteq> CHR 0x0A"
proof -
  from lex_loop_error [of "text" 0 "[]" e] assms obtain p where p: "p < length text"
    and e: "e = LexError (text ! p) p"
    and none: "first_match TOKEN_REGEX (drop p text) = None"
    by (auto simp: lex_def)
  have "drop p text = text ! p # drop (Suc p) text"
    using p by (simp add: Cons_nth_drop_Suc)
  with none first_match_newline [of "drop (Suc p) text"] have "text ! p \<noteq> CHR 0x0A"
    by auto
  with e show ?thesis by blast
qed

lemma py_ops_raise:
  "py_add fl x y = Raises e \<Longrightarrow> runtime_error e"
  "py_sub fl x y = Raises e \<Longrightarrow> runtime_error e"
  "py_pow fl x y = Raises e \<Longrightarrow> runtime_error e"
  "py_abs fl x = Raises e \<Longrightarrow> runtime_error e"
  by (cases x; cases y;
      auto simp: runtime_error_def number_op_def split: if_splits sum.splits)+

lemma eval_expr_raises:
  "eval_expr fl e c = Raises err \<Longrightarrow>
     (\<exists>n \<in> set (var_refs e). err = SemanticError n \<and> map_of c n = None) \<or> runtime_error err"
proof (induction e arbitrary: err)
  case (NumLit n)
  then show ?case by simp
next
  case (VarRef name)
  then show ?case by (auto split: option.splits)
next
  case (Add l r)
  from Add.prems Add.IH [of err] py_ops_raise(1) [of _ _ _ err] show ?case
    by (auto simp: then_do_Raises)
next
  case (Sub l r)
  from Sub.prems Sub.IH [of err] py_ops_raise(2) [of _ _ _ err] show ?case
    by (auto simp: then_do_Raises)
next
  case (PowOf l r)
  from PowOf.prems PowOf.IH [of err] py_ops_raise(3) [of _ _ _ err] show ?case
    by (auto simp: then_do_Raises)
next
  case (AbsOf a)
  from AbsOf.prems AbsOf.IH [of err] py_ops_raise(4) [of _ _ err] show ?case
    by (auto simp: then_do_Raises)
qed

lemma eval_value_raises:
  "eval_value fl v c = Raises err \<Longrightarrow>
     (\<exists>n \<in> set (value_refs v). err = SemanticError n \<and> map_of c n = None) \<or> runtime_error err"
  "eval_items fl vs c = Raises err \<Longrightarrow>
     (\<exists>v \<in> set vs. \<exists>n \<in> set (value_refs v). err = SemanticError n \<and> map_of c n = None)
     \<or> runtime_error err"
proof (induction fl v c and fl vs c rule: eval_value_eval_items.induct)
  case (1 fl n c)
  then show ?case by simp
next
  case (2 fl items c)
  then show ?case by (auto simp: then_do_Raises)
next
  case (3 fl e c)
  then show ?case by (auto dest: eval_expr_raises)
next
  case (4 fl c)
  then show ?case by simp
next
  case (5 fl x xs c)
  from "5.prems" consider "eval_value fl x c = Raises err"
    | v where "eval_value fl x c = Returns v" "eval_items fl xs c = Raises err"
    by (auto simp: then_do_Raises)
  then show ?case
  proof cases
    case 1
    from "5.IH"(1) [OF 1] show ?thesis by auto
  next
    case 2
    from "5.IH"(2) [OF 2(2)] show ?thesis by auto
  qed
qed


lemma eval_stmts_raises:
  "eval_stmts fl stmts c = Raises err \<Longrightarrow>
     (\<exists>st \<in> set stmts. \<exists>n \<in> set (value_refs (stmt_val st)). err = SemanticError n)
     \<or> runtime_error err"
proof (induction stmts arbitrary: c)
  case Nil
  then show ?case by simp
next
  case (Cons s stmts)
  obtain m e where s: "s = SetStmt m e" by (cases s)
  from Cons.prems consider "eval_value fl e c = Raises err"
    | v where "eval_stmts fl stmts (dict_set c m v) = Raises err"
    by (auto simp: s then_do_Raises)
  then show ?case
  proof cases
    case 1
    from eval_value_raises(1) [OF 1] show ?thesis by (auto simp: s)
  next
    case 2
    from Cons.IH [OF 2] show ?thesis by auto
  qed
qed

lemma eval_stmts_first_failure:
  assumes "eval_stmts fl pre c = Returns t" and "eval_value fl (stmt_val st) t = Raises e"
  shows "eval_stmts fl (pre @ st # post) c = Raises e"
proof -
  obtain m v where st: "st = SetStmt m v" by (cases st)
  from assms show ?thesis
    by (simp add: eval_stmts_append st then_do_def)
qed






lemma kind_name_no_newline: "CHR 0x0A \<notin> set (kind_name k)"
  by (cases k) simp_all

lemma str_nat_no_newline: "CHR 0x0A \<notin> set (str_nat n)"
  by (auto dest: str_nat_digits)

lemma str_error_one_line:
  assumes "case e of LexError c pos \<Rightarrow> c \<noteq> CHR 0x0A
     | SemanticError name \<Rightarrow> CHR 0x0A \<notin> set name | _ \<Rightarrow> True"
  shows "CHR 0x0A \<notin> set (str_error e)"
proof (cases e)
  case (LexError c pos)
  with assms show ?thesis by (simp add: quoted_def str_nat_no_newline)
next
  case (SyntaxExpected k got)
  then show ?thesis by (cases got) (simp_all add: kind_name_no_newline)
next
  case (SyntaxUnexpected k)
  then show ?thesis by (simp add: kind_name_no_newline)
next
  case (SemanticError name)
  with assms show ?thesis by simp
next
  case AttributeError
  then show ?thesis by (simp add: quoted_def)
next
  case (TypeErrorBinary op l r)
  then show ?thesis by (cases op; cases l; cases r) (simp_all add: quoted_def)
next
  case (TypeErrorConcat r)
  then show ?thesis by (cases r) simp_all
next
  case TypeErrorAbs
  then show ?thesis by (simp add: quoted_def)
next
  case OverflowError
  then show ?thesis by simp
next
  case ZeroDivisionError
  then show ?thesis by simp
next
  case (ArithmeticError m)
  then show ?thesis by (simp add: line_text_no_newline)
qed

lemma run_Raises:
  "run fl text = Raises e \<longleftrightarrow>
     lex text = Inl e \<or>
     (\<exists>tokens. lex text = Inr tokens \<and>
        (parse tokens = Inl e \<or>
         (\<exists>stmts. parse tokens = Inr stmts \<and> eval_stmts fl stmts [] = Raises e)))"
  by (cases "lex text"; cases "parse (projr (lex text))")
    (auto simp: run_def of_sum_def then_do_Raises)

lemma run_one_line:
  assumes "run fl text = Raises e"
  shows "CHR 0x0A \<notin> set (str_error e)"
proof -
  from assms [unfolded run_Raises] consider (lex) "lex text = Inl e"
    | (parse) tokens where "lex text = Inr tokens" "parse tokens = Inl e"
    | (eval) tokens stmts where "lex text = Inr tokens" "parse tokens = Inr stmts"
        "eval_stmts fl stmts [] = Raises e"
    by blast
  then show ?thesis
  proof cases
    case lex
    from lex_error_char [OF lex] show ?thesis
      by (intro str_error_one_line) auto
  next
    case parse
    from parse_loop_fails [of tokens "[]"] parse(2) obtain rest where "error_at rest e"
      by (auto simp: parse_def fails_at_def)
    then show ?thesis
      by (intro str_error_one_line) (auto simp: error_at_def split: error.splits)
  next
    case eval
    from eval_stmts_raises [OF eval(3)] consider
      st n where "st \<in> set stmts" "n \<in> set (value_refs (stmt_val st))" "e = SemanticError n"
      | "runtime_error e"
      by blast
    then show ?thesis
    proof cases
      case 1
      from parse_loop_result [of "[]" tokens stmts] eval(2) 1(1,2)
      have "n \<in> tvalue ` set tokens"
        by (auto simp: parse_def)
      with lex_values [OF eval(1)] have "CHR 0x0A \<notin> set n" by auto
      with 1(3) show ?thesis by simp
    next
      case 2
      then show ?thesis
        by (intro str_error_one_line) (auto simp: runtime_error_def split: error.splits)
    qed
  qed
qed

subsection \<open>Runs through a negative exponent\<close>

text \<open>
  Whatever the floating-point arithmetic of the interpreter: the \<open>float\<close> of a negative
  power is written as \<open>repr\<close> prints it; the statements after it are evaluated, so that
  an undefined name among them is reported and a later statement for the same name
  overwrites the \<open>float\<close>; and a base too large for a \<open>float\<close> ends the run with the
  line of the \<open>OverflowError\<close>.
\<close>

lemma run_parsed:
  "and_then (lex text) parse = Inr stmts \<Longrightarrow>
     run fl text = then_do (eval_stmts fl stmts []) (\<lambda>c. Returns (to_toml fl c))"
  by (cases "lex text") (auto simp: and_then_def run_def of_sum_def then_do_def)

lemma lower_A: "lower ''A'' = ''a''"
  by code_simp

lemma float_value_is_written:
  "main fl ''set A = ^{ pow(2, 0 - 1) };'' = ''a = '' @ line_text (fl_repr fl (fl_pow fl 2 (- 1)))"
proof -
  have "and_then (lex ''set A = ^{ pow(2, 0 - 1) };'') parse =
      Inr [SetStmt ''A'' (ConstExpr (PowOf (NumLit 2) (Sub (NumLit 0) (NumLit 1))))]"
    by code_simp
  from run_parsed [OF this, of fl] show ?thesis
    by (simp add: main_def then_do_def too_large_for_float_def to_toml_def lower_A)
qed

lemma semantic_error_after_float:
  "main fl ''set A = ^{ pow(2, -1) }; set B = ^{ C };'' =
     ''ERROR = '' @ [CHR 0x22] @ ''SemanticError: Unknown constant C'' @ [CHR 0x22]"
proof -
  have "and_then (lex ''set A = ^{ pow(2, -1) }; set B = ^{ C };'') parse =
      Inr [SetStmt ''A'' (ConstExpr (PowOf (NumLit 2) (Sub (NumLit 0) (NumLit 1)))),
           SetStmt ''B'' (ConstExpr (VarRef ''C''))]"
    by code_simp
  from run_parsed [OF this, of fl] show ?thesis
    by (simp add: main_def then_do_def too_large_for_float_def error_line_def)
qed

lemma overwrite_after_float:
  "main fl ''set A = ^{ pow(2, -1) }; set A = 1;'' = ''a = 1''"
proof -
  have "and_then (lex ''set A = ^{ pow(2, -1) }; set A = 1;'') parse =
      Inr [SetStmt ''A'' (ConstExpr (PowOf (NumLit 2) (Sub (NumLit 0) (NumLit 1)))),
           SetStmt ''A'' (NumberLiteral 1)]"
    by code_simp
  moreover have "str_int 1 = ''1''"
    by code_simp
  ultimately show ?thesis
    using run_parsed [of "''set A = ^{ pow(2, -1) }; set A = 1;''" _ fl]
    by (simp add: main_def then_do_def too_large_for_float_def to_toml_def lower_A)
qed

lemma overflow_error_line:
  "main fl ''set A = ^{ pow(pow(2, 1024), -1) };'' =
     ''ERROR = '' @ [CHR 0x22] @ ''int too large to convert to float'' @ [CHR 0x22]"
proof -
  have "and_then (lex ''set A = ^{ pow(pow(2, 1024), -1) };'') parse =
      Inr [SetStmt ''A'' (ConstExpr
        (PowOf (PowOf (NumLit 2) (NumLit 1024)) (Sub (NumLit 0) (NumLit 1))))]"
    by code_simp
  from run_parsed [OF this, of fl] show ?thesis
    by (simp add: main_def then_do_def too_large_for_float_def error_line_def)
qed

subsection \<open>The output of a run\<close>

lemma eval_stmts_raises_at:
  "eval_stmts fl stmts c = Raises e \<Longrightarrow>
     \<exists>pre st post t. stmts = pre @ st # post \<and> eval_stmts fl pre c = Returns t \<and>
       eval_value fl (stmt_val st) t = Raises e"
proof (induction stmts arbitrary: c)
  case Nil
  then show ?case by simp
next
  case (Cons s stmts)
  obtain m v where s: "s = SetStmt m v" by (cases s)
  from Cons.prems consider "eval_value fl v c = Raises e"
    | x where "eval_value fl v c = Returns x" "eval_stmts fl stmts (dict_set c m x) = Raises e"
    by (auto simp: s then_do_Raises)
  then show ?case
  proof cases
    case 1
    then have "s # stmts = [] @ s # stmts \<and> eval_stmts fl [] c = Returns c \<and>
        eval_value fl (stmt_val s) c = Raises e"
      by (simp add: s)
    then show ?thesis by blast
  next
    case 2
    from Cons.IH [OF 2(2)] obtain pre st post t where "stmts = pre @ st # post"
      and "eval_stmts fl pre (dict_set c m x) = Returns t"
      and "eval_value fl (stmt_val st) t = Raises e"
      by blast
    with 2(1) have "s # stmts = (s # pre) @ st # post \<and> eval_stmts fl (s # pre) c = Returns t \<and>
        eval_value fl (stmt_val st) t = Raises e"
      by (simp add: s then_do_def)
    then show ?thesis by blast
  qed
qed

lemma run_total:
  "(\<exists>e. run fl text = Raises e) \<or>
   (\<exists>tokens stmts consts. lex text = Inr tokens \<and> parse tokens = Inr stmts \<and>
      eval_stmts fl stmts [] = Returns consts \<and> run fl text = Returns (to_toml fl consts))"
  by (cases "lex text"; cases "parse (projr (lex text))";
      cases "eval_stmts fl (projr (parse (projr (lex text)))) []")
    (auto simp: run_def of_sum_def then_do_def)

text \<open>
  Claim C2.  Whichever stage raises (the lexer; the parser on the tokens; the
  evaluation of a statement after the statements before it were evaluated), the output
  is the text \<open>ERROR = "..."\<close> with the message of that exception and nothing else: no
  line of an evaluated statement.  The run raises exactly when one of the stages does;
  when it is the evaluation, the exception is that of the first statement whose value
  raises, the statements before it having been evaluated.  The output then contains no
  line break: it is one line.  A run that does not raise writes the lines of the
  dictionary.
\<close>

theorem failure_output:
  "(lex text = Inl e \<longrightarrow> main fl text = error_line e)
   \<and> (lex text = Inr tokens \<and> parse tokens = Inl e \<longrightarrow> main fl text = error_line e)
   \<and> (lex text = Inr tokens \<and> parse tokens = Inr (pre @ st # post) \<and>
        eval_stmts fl pre [] = Returns t \<and> eval_value fl (stmt_val st) t = Raises e \<longrightarrow>
          main fl text = error_line e)
   \<and> (run fl text = Raises e \<longrightarrow>
          main fl text = error_line e \<and>
          error_line e = ''ERROR = '' @ [CHR 0x22] @ str_error e @ [CHR 0x22] \<and>
          CHR 0x0A \<notin> set (error_line e))
   \<and> (run fl text = Raises e \<longleftrightarrow>
         lex text = Inl e \<or>
         (\<exists>tokens. lex text = Inr tokens \<and>
            (parse tokens = Inl e \<or>
             (\<exists>stmts. parse tokens = Inr stmts \<and> eval_stmts fl stmts [] = Raises e))))
   \<and> (eval_stmts fl stmts [] = Raises e \<longrightarrow>
         (\<exists>pre st post t. stmts = pre @ st # post \<and> eval_stmts fl pre [] = Returns t \<and>
            eval_value fl (stmt_val st) t = Raises e))
   \<and> ((\<exists>e. run fl text = Raises e) \<or>
       (\<exists>tokens stmts consts. lex text = Inr tokens \<and> parse tokens = Inr stmts \<and>
          eval_stmts fl stmts [] = Returns consts \<and> main fl text = to_toml fl consts))"
proof (intro conjI impI)
  have out: "main fl text = error_line e" if "run fl text = Raises e"
    using that by (simp add: main_def)
  show "main fl text = error_line e" if "lex text = Inl e"
    using that by (intro out) (simp add: run_Raises)
  show "main fl text = error_line e"
    if "lex text = Inr tokens \<and> parse tokens = Inl e"
    using that by (intro out) (simp add: run_Raises)
  show "main fl text = error_line e"
    if "lex text = Inr tokens \<and> parse tokens = Inr (pre @ st # post) \<and>
        eval_stmts fl pre [] = Returns t \<and> eval_value fl (stmt_val st) t = Raises e"
    using that eval_stmts_first_failure [of fl pre "[]" t st e post]
    by (intro out) (simp add: run_Raises)
  show "main fl text = error_line e" if "run fl text = Raises e"
    using that by (rule out)
  show "error_line e = ''ERROR = '' @ [CHR 0x22] @ str_error e @ [CHR 0x22]"
    by (simp add: error_line_def)
  show "CHR 0x0A \<notin> set (error_line e)" if "run fl text = Raises e"
    using run_one_line [OF that] by (simp add: error_line_def)
  show "run fl text = Raises e \<longleftrightarrow>
         lex text = Inl e \<or>
         (\<exists>tokens. lex text = Inr tokens \<and>
            (parse tokens = Inl e \<or>
             (\<exists>stmts. parse tokens = Inr stmts \<and> eval_stmts fl stmts [] = Raises e)))"
    by (rule run_Raises)
  show "\<exists>pre st post t. stmts = pre @ st # post \<and> eval_stmts fl pre [] = Returns t \<and>
      eval_value fl (stmt_val st) t = Raises e"
    if "eval_stmts fl stmts [] = Raises e"
    using that by (rule eval_stmts_raises_at)
  show "(\<exists>e. run fl text = Raises e) \<or>
       (\<exists>tokens stmts consts. lex text = Inr tokens \<and> parse tokens = Inr stmts \<and>
          eval_stmts fl stmts [] = Returns consts \<and> main fl text = to_toml fl consts)"
    using run_total [of fl "text"] by (auto simp: main_def)
qed

theorem failure_output_witness:
  "run example_floats ''set A = 5; set B = ^{ C };'' = Raises (SemanticError ''C'')
   \<and> main example_floats ''set A = 5; set B = ^{ C };'' = error_line (SemanticError ''C'')
   \<and> error_line (SemanticError ''C'') =
        ''ERROR = '' @ [CHR 0x22] @ ''SemanticError: Unknown constant C'' @ [CHR 0x22]
   \<and> CHR 0x0A \<notin> set (error_line (SemanticError ''C''))
   \<and> lex ''set A = $'' = Inl (LexError CHR ''$'' 8)
   \<and> main example_floats ''set A = $'' = error_line (LexError CHR ''$'' 8)
   \<and> run example_floats ''set A = ^{ pow(2, -1) }; set B = ^{ C };'' =
        Raises (SemanticError ''C'')
   \<and> main example_floats ''set A = ^{ pow(2, -1) }; set B = ^{ C };'' =
        ''ERROR = '' @ [CHR 0x22] @ ''SemanticError: Unknown constant C'' @ [CHR 0x22]
   \<and> run example_floats ''set A = ^{ pow(pow(2, 1024), -1) };'' = Raises OverflowError
   \<and> main example_floats ''set A = ^{ pow(pow(2, 1024), -1) };'' =
        ''ERROR = '' @ [CHR 0x22] @ ''int too large to convert to float'' @ [CHR 0x22]"
proof -
  have r: "run example_floats ''set A = 5; set B = ^{ C };'' = Raises (SemanticError ''C'')"
    by code_simp
  have l: "lex ''set A = $'' = Inl (LexError CHR ''$'' 8)"
    by code_simp
  have r2: "run example_floats ''set A = ^{ pow(2, -1) }; set B = ^{ C };'' =
      Raises (SemanticError ''C'')"
    by code_simp
  have r3: "run example_floats ''set A = ^{ pow(pow(2, 1024), -1) };'' = Raises OverflowError"
    by code_simp
  have m: "error_line (SemanticError ''C'') =
      ''ERROR = '' @ [CHR 0x22] @ ''SemanticError: Unknown constant C'' @ [CHR 0x22]"
    "error_line OverflowError =
      ''ERROR = '' @ [CHR 0x22] @ ''int too large to convert to float'' @ [CHR 0x22]"
    by (simp_all add: error_line_def)
  from failure_output [of "''set A = 5; set B = ^{ C };''" "SemanticError ''C''" example_floats,
      THEN conjunct2, THEN conjunct2, THEN conjunct2, THEN conjunct1, rule_format, OF r]
    failure_output [of "''set A = $''" "LexError CHR ''$'' 8" example_floats, THEN conjunct1, rule_format, OF l]
    failure_output [of "''set A = ^{ pow(2, -1) }; set B = ^{ C };''" "SemanticError ''C''" example_floats,
      THEN conjunct2, THEN conjunct2, THEN conjunct2, THEN conjunct1, rule_format, OF r2]
    failure_output [of "''set A = ^{ pow(pow(2, 1024), -1) };''" "OverflowError" example_floats,
      THEN conjunct2, THEN conjunct2, THEN conjunct2, THEN conjunct1, rule_format, OF r3]
    r l r2 r3 m
  show ?thesis by simp
qed




end
